theory Spec2Isabelle
  imports Main "HOL-Library.Word"
begin

section \<open>The OTF2 writer of sst-dumpi: data model\<close>

text \<open>
  The theory embeds the translation engine of \<^verbatim>\<open>dumpi/libotf2dump/otf2writer.cc\<close>:
  the tracker of non-blocking requests, the byte counting, the Bcast volume, the group
  exclusion and the two passes that number the communicators.

  Handles (requests, communicators, datatypes, groups) are opaque integers that the code
  only compares and uses as keys; they are \<open>int\<close>. Timestamps and byte counts are
  \<open>uint64_t\<close>, hence \<open>64 word\<close>; sources and tags are \<open>uint32_t\<close>.
\<close>

type_synonym otf2_time_t = "64 word"
type_synonym request_t = int
type_synonym comm_t = int
type_synonym mpi_type_t = int

datatype REQUEST_TYPE = REQUEST_TYPE_ISEND | REQUEST_TYPE_IRECV

datatype OTF2_WRITER_RESULT = OTF2_WRITER_SUCCESS

datatype OTF2_WRITER_VERBOSITY = OWV_NONE | OWV_ABORT | OWV_ERROR | OWV_WARN | OWV_INFO

datatype OTF2_CollectiveOp = OTF2_COLLECTIVE_OP_BCAST

text \<open>
  The payload captured by \<^verbatim>\<open>mpi_irecv\<close>. The struct is declared in
  \<^verbatim>\<open>otf2writer.h\<close>, which is not among the sources; \<^verbatim>\<open>complete_call\<close> names its
  fields, and their order is taken from the aggregate
  \<^verbatim>\<open>{count_bytes(type, count), source, tag, comm, request}\<close> of \<^verbatim>\<open>mpi_irecv\<close>, so
  that each argument of the post lands in the field of its name.
\<close>

record irecv_capture =
  bytes_sent :: "64 word"
  source :: "32 word"
  tag :: "32 word"
  comm :: comm_t
  request :: request_t

text \<open>
  The records handed to the trace sink, one constructor for each
  \<^verbatim>\<open>OTF2_EvtWriter_*\<close> call of the functions embedded here, with the arguments in the
  order of the call (the writer and the attribute list left out).
\<close>

datatype otf2_event =
    Enter otf2_time_t int
  | Leave otf2_time_t int
  | MpiSend otf2_time_t "32 word" comm_t "32 word" "64 word"
  | MpiIsend otf2_time_t "32 word" comm_t "32 word" "64 word" request_t
  | MpiIsendComplete otf2_time_t request_t
  | MpiIrecvRequest otf2_time_t request_t
  | MpiIrecv otf2_time_t "32 word" comm_t "32 word" "64 word" request_t
  | MpiCollectiveBegin otf2_time_t
  | MpiCollectiveEnd otf2_time_t OTF2_CollectiveOp comm_t int "64 word" "64 word"

text \<open>
  A group: its membership as world ranks, a \<^verbatim>\<open>std::vector<int>\<close>.
\<close>

record OTF2_MPI_Group =
  global_ranks :: "int list"

text \<open>
  A communicator. \<^verbatim>\<open>sub_comms\<close> is a list of pointers to the records of the
  communicators derived from this one; the forest below a communicator is the value of the
  datatype, each pointer standing for the record it points to.
\<close>

datatype OTF2_MPI_Comm =
  OTF2_MPI_Comm (local_id: int) (global_id: int) (local_group_id: int) (name: string)
    (is_root: bool) (sub_comms: "OTF2_MPI_Comm list")

text \<open>
  Every way in which a call ends without returning: \<^verbatim>\<open>abort()\<close> in
  \<^verbatim>\<open>complete_call\<close> (with the message written to \<^verbatim>\<open>std::cerr\<close>), a thrown
  \<^verbatim>\<open>exception\<close>, and the reads and writes that C++ leaves undefined.
\<close>

datatype failure =
    Abort_request_not_found request_t
  | Abort_irecv_not_found request_t
  | Thrown string
  | Out_of_bounds string
  | Flows_off_end

text \<open>
  The fields of \<^verbatim>\<open>OTF2_Writer\<close> that the embedded functions read or write (a field
  \<^verbatim>\<open>x_\<close> of the source is \<open>x\<close> here, and \<^verbatim>\<open>world_.rank\<close> is \<open>world_rank\<close>).
  \<open>evt_writer\<close> is the sequence of records written so far; \<open>printed\<close> is the sequence of
  lines that \<^verbatim>\<open>logger\<close> has written to the standard output. The source reaches \<^verbatim>\<open>groups_\<close> and
  \<^verbatim>\<open>comms_\<close> through \<^verbatim>\<open>operator[]\<close> only, which makes a default record for a
  key that has none: both are total functions here.
\<close>

record writer =
  world_rank :: int
  world_size :: int
  start_time :: otf2_time_t
  stop_time :: otf2_time_t
  event_count :: int
  null_request :: request_t
  type_sizes :: "mpi_type_t \<rightharpoonup> int"
  request_type :: "request_t \<rightharpoonup> REQUEST_TYPE"
  irecv_requests :: "request_t \<rightharpoonup> irecv_capture"
  otf2_regions_table :: "string list"
  evt_writer :: "otf2_event list"
  verbosity :: OTF2_WRITER_VERBOSITY
  printed :: "string list"
  groups :: "int \<Rightarrow> OTF2_MPI_Group"
  comms :: "comm_t \<Rightarrow> OTF2_MPI_Comm"

section \<open>Logging, regions and the call brackets\<close>

text \<open>
  Modelled from the spec: the enumeration \<^verbatim>\<open>OTF2_WRITER_VERBOSITY\<close> is declared in
  \<^verbatim>\<open>otf2writer.h\<close>, which is not among the sources, and the spec leaves the logging
  out of its scope. The enumerators are numbered from \<^verbatim>\<open>OWV_NONE\<close> in the order in
  which the \<^verbatim>\<open>switch\<close> of \<^verbatim>\<open>logger\<close> lists them, so that a higher verbosity lets
  more levels through.
\<close>

fun verbosity_value :: "OTF2_WRITER_VERBOSITY \<Rightarrow> int" where
  "verbosity_value OWV_NONE = 0"
| "verbosity_value OWV_ABORT = 1"
| "verbosity_value OWV_ERROR = 2"
| "verbosity_value OWV_WARN = 3"
| "verbosity_value OWV_INFO = 4"

text \<open>The \<^verbatim>\<open>switch\<close> of \<^verbatim>\<open>logger\<close> that picks the text put before the message.\<close>

fun prepender :: "OTF2_WRITER_VERBOSITY \<Rightarrow> string" where
  "prepender OWV_ABORT = ''OTF2 WRITER (ABRT): ''"
| "prepender OWV_ERROR = ''OTF2 WRITER  (ERR): ''"
| "prepender OWV_WARN = ''OTF2 WRITER  (WRN): ''"
| "prepender OWV_INFO = ''OTF2 WRITER (INFO): ''"
| "prepender OWV_NONE = ''OTF2 WRITER  (UNK): ''"

text \<open>
  \<^verbatim>\<open>logger\<close>: the line is printed when
  \<^verbatim>\<open>verbosity_ >= level && verbosity_ != OWV_NONE\<close>, and nothing happens otherwise.
\<close>

definition logger :: "OTF2_WRITER_VERBOSITY \<Rightarrow> string \<Rightarrow> writer \<Rightarrow> writer" where
  "logger level msg w =
     (if verbosity_value level \<le> verbosity_value (verbosity w) \<and> verbosity w \<noteq> OWV_NONE
      then w\<lparr>printed := printed w @ [prepender level @ msg]\<rparr>
      else w)"

fun index_of :: "'a \<Rightarrow> 'a list \<Rightarrow> nat option" where
  "index_of x [] = None"
| "index_of x (y # ys) =
     (if x = y then Some 0 else map_option Suc (index_of x ys))"

text \<open>
  Modelled from the spec: the class of \<^verbatim>\<open>otf2_regions_table_\<close> is declared in
  \<^verbatim>\<open>otf2writer.h\<close>, which is not among the sources. The spec has an interner that maps
  a value to a stable integer assigned in first-seen order, where interning a value again
  returns its identifier and does not grow the table.
\<close>

definition table_insert :: "string \<Rightarrow> string list \<Rightarrow> int \<times> string list" where
  "table_insert nm tbl =
     (case index_of nm tbl of
        Some i \<Rightarrow> (int i, tbl)
      | None \<Rightarrow> (int (length tbl), tbl @ [nm]))"

text \<open>The macro \<^verbatim>\<open>_ENTER(name)\<close>; its value is \<^verbatim>\<open>this_region\<close>.\<close>

definition ENTER ::
  "string \<Rightarrow> otf2_time_t \<Rightarrow> otf2_time_t \<Rightarrow> writer \<Rightarrow> int \<times> writer" where
  "ENTER nm start stop w =
     (let w1 = logger OWV_INFO nm w;
          w2 = w1\<lparr>start_time := min (start_time w1) start\<rparr>;
          w3 = w2\<lparr>stop_time := max (stop_time w2) stop\<rparr>;
          (this_region, tbl) = table_insert nm (otf2_regions_table w3)
      in (this_region,
          w3\<lparr>otf2_regions_table := tbl,
             evt_writer := evt_writer w3 @ [Enter start this_region],
             event_count := event_count w3 + 1\<rparr>))"

text \<open>
  The macro \<^verbatim>\<open>_LEAVE()\<close> ends with \<^verbatim>\<open>return OTF2_WRITER_SUCCESS;\<close>. A statement
  either returns from the enclosing function with a value or lets control go on.
\<close>

datatype 'r control = Return 'r | Continue

definition LEAVE ::
  "otf2_time_t \<Rightarrow> int \<Rightarrow> writer \<Rightarrow> OTF2_WRITER_RESULT control \<times> writer" where
  "LEAVE stop this_region w =
     (Return OTF2_WRITER_SUCCESS,
      w\<lparr>evt_writer := evt_writer w @ [Leave stop this_region],
        event_count := event_count w + 1\<rparr>)"

text \<open>
  The end of a function body whose last statement is \<^verbatim>\<open>_LEAVE()\<close>: nothing follows
  the macro, and control that went past it would flow off the end of a function that
  returns a value.
\<close>

definition returned ::
  "OTF2_WRITER_RESULT control \<times> writer \<Rightarrow> failure + OTF2_WRITER_RESULT \<times> writer" where
  "returned cw =
     (case cw of (Return r, w) \<Rightarrow> Inr (r, w) | (Continue, w) \<Rightarrow> Inl Flows_off_end)"

section \<open>Byte counts\<close>

fun string_of_nat :: "nat \<Rightarrow> string" where
  "string_of_nat n =
     (if n < 10 then [''0123456789'' ! n]
      else string_of_nat (n div 10) @ [''0123456789'' ! (n mod 10)])"

declare string_of_nat.simps [simp del]

definition to_string :: "int \<Rightarrow> string" where
  "to_string i = (if i < 0 then CHR ''-'' # string_of_nat (nat (- i)) else string_of_nat (nat i))"

text \<open>
  \<^verbatim>\<open>count_bytes\<close>. The product \<^verbatim>\<open>type_sizes_[type]*count\<close> is taken in
  \<open>uint64_t\<close>: the size, an \<open>int\<close>, is converted to it and the multiplication wraps.
  The function calls the logger on the unknown-type path, so the model returns the writer
  too. The test is \<^verbatim>\<open>type_sizes_.find(type) == type_sizes_.end()\<close>: it asks whether the
  table has an entry for the handle.
\<close>

definition count_bytes :: "mpi_type_t \<Rightarrow> 64 word \<Rightarrow> writer \<Rightarrow> 64 word \<times> writer" where
  "count_bytes ty count w =
     (case type_sizes w ty of
        None \<Rightarrow>
          (4 * count,
           logger OWV_ERROR
             (''Unkown data type ('' @ to_string ty @ ''). Assuming 4 bytes in size.'') w)
      | Some sz \<Rightarrow> (word_of_int sz * count, w))"

section \<open>The request tracker\<close>

text \<open>
  \<^verbatim>\<open>mpi_send_inner\<close> and \<^verbatim>\<open>mpi_send\<close>. The size is read as
  \<^verbatim>\<open>type_sizes_[type]\<close>: for a handle without an entry \<^verbatim>\<open>operator[]\<close> makes one,
  of size 0.
\<close>

definition mpi_send_inner ::
  "otf2_time_t \<Rightarrow> mpi_type_t \<Rightarrow> 64 word \<Rightarrow> 32 word \<Rightarrow> comm_t \<Rightarrow> 32 word \<Rightarrow> writer \<Rightarrow>
   OTF2_WRITER_RESULT \<times> writer" where
  "mpi_send_inner start ty count dest cm tg w =
     (let sz = (case type_sizes w ty of None \<Rightarrow> 0 | Some s \<Rightarrow> s);
          w1 = w\<lparr>type_sizes := (type_sizes w)(ty \<mapsto> sz)\<rparr>
      in (OTF2_WRITER_SUCCESS,
          w1\<lparr>evt_writer := evt_writer w1 @ [MpiSend start dest cm tg (word_of_int sz * count)],
             event_count := event_count w1 + 1\<rparr>))"

definition mpi_send ::
  "otf2_time_t \<Rightarrow> otf2_time_t \<Rightarrow> mpi_type_t \<Rightarrow> 64 word \<Rightarrow> 32 word \<Rightarrow> comm_t \<Rightarrow> 32 word \<Rightarrow>
   writer \<Rightarrow> failure + OTF2_WRITER_RESULT \<times> writer" where
  "mpi_send start stop ty count dest cm tg w =
     (let (this_region, w1) = ENTER ''MPI_Send'' start stop w;
          (r, w2) = mpi_send_inner start ty count dest cm tg w1
      in returned (LEAVE stop this_region w2))"

definition incomplete_call :: "request_t \<Rightarrow> REQUEST_TYPE \<Rightarrow> writer \<Rightarrow> writer" where
  "incomplete_call request_id ty w =
     (if request_id \<noteq> null_request w
      then w\<lparr>request_type := (request_type w)(request_id \<mapsto> ty)\<rparr>
      else w)"

text \<open>
  \<^verbatim>\<open>complete_call\<close>. In the receive branch the source copies
  \<^verbatim>\<open>irecv_it->second\<close> before it tests the iterator against \<^verbatim>\<open>end()\<close>; where the
  test fails it aborts, which is the outcome kept here.
\<close>

definition complete_call :: "request_t \<Rightarrow> 64 word \<Rightarrow> writer \<Rightarrow> failure + writer" where
  "complete_call request_id timestamp w =
     (case request_type w request_id of
        None \<Rightarrow>
          (if request_id \<noteq> null_request w
           then Inl (Abort_request_not_found request_id)
           else Inr w)
      | Some REQUEST_TYPE_ISEND \<Rightarrow>
          Inr (w\<lparr>evt_writer := evt_writer w @ [MpiIsendComplete timestamp request_id],
                 event_count := event_count w + 1,
                 request_type := (request_type w)(request_id := None)\<rparr>)
      | Some REQUEST_TYPE_IRECV \<Rightarrow>
          (case irecv_requests w request_id of
             None \<Rightarrow> Inl (Abort_irecv_not_found request_id)
           | Some irecv \<Rightarrow>
               Inr (w\<lparr>evt_writer := evt_writer w @
                        [MpiIrecv timestamp (source irecv) (comm irecv) (tag irecv)
                           (bytes_sent irecv) request_id],
                      irecv_requests := (irecv_requests w)(request_id := None),
                      event_count := event_count w + 1,
                      request_type := (request_type w)(request_id := None)\<rparr>)))"

definition mpi_isend_inner ::
  "otf2_time_t \<Rightarrow> mpi_type_t \<Rightarrow> 64 word \<Rightarrow> 32 word \<Rightarrow> comm_t \<Rightarrow> 32 word \<Rightarrow> request_t \<Rightarrow>
   writer \<Rightarrow> OTF2_WRITER_RESULT \<times> writer" where
  "mpi_isend_inner start ty count dest cm tg req w =
     (let w1 = incomplete_call req REQUEST_TYPE_ISEND w;
          (bytes, w2) = count_bytes ty count w1
      in (OTF2_WRITER_SUCCESS,
          w2\<lparr>evt_writer := evt_writer w2 @ [MpiIsend start dest cm tg bytes req],
             event_count := event_count w2 + 1\<rparr>))"

definition mpi_isend ::
  "otf2_time_t \<Rightarrow> otf2_time_t \<Rightarrow> mpi_type_t \<Rightarrow> 64 word \<Rightarrow> 32 word \<Rightarrow> comm_t \<Rightarrow> 32 word \<Rightarrow>
   request_t \<Rightarrow> writer \<Rightarrow> failure + OTF2_WRITER_RESULT \<times> writer" where
  "mpi_isend start stop ty count dest cm tg req w =
     (let (this_region, w1) = ENTER ''MPI_Isend'' start stop w;
          (r, w2) = mpi_isend_inner start ty count dest cm tg req w1
      in returned (LEAVE stop this_region w2))"

definition mpi_irecv ::
  "otf2_time_t \<Rightarrow> otf2_time_t \<Rightarrow> mpi_type_t \<Rightarrow> 64 word \<Rightarrow> 32 word \<Rightarrow> comm_t \<Rightarrow> 32 word \<Rightarrow>
   request_t \<Rightarrow> writer \<Rightarrow> failure + OTF2_WRITER_RESULT \<times> writer" where
  "mpi_irecv start stop ty count src cm tg req w =
     (let (this_region, w1) = ENTER ''MPI_Irecv'' start stop w;
          (bytes, w2) = count_bytes ty count w1;
          w3 = w2\<lparr>irecv_requests := (irecv_requests w2)(req \<mapsto>
                   \<lparr>bytes_sent = bytes, source = src, tag = tg, comm = cm, request = req\<rparr>)\<rparr>;
          w4 = incomplete_call req REQUEST_TYPE_IRECV w3;
          w5 = w4\<lparr>evt_writer := evt_writer w4 @ [MpiIrecvRequest start req],
                  event_count := event_count w4 + 1\<rparr>
      in returned (LEAVE stop this_region w5))"

definition mpi_wait ::
  "otf2_time_t \<Rightarrow> otf2_time_t \<Rightarrow> request_t \<Rightarrow> writer \<Rightarrow>
   failure + OTF2_WRITER_RESULT \<times> writer" where
  "mpi_wait start stop req w =
     (let (this_region, w1) = ENTER ''MPI_Wait'' start stop w
      in case complete_call req start w1 of
           Inl e \<Rightarrow> Inl e
         | Inr w2 \<Rightarrow> returned (LEAVE stop this_region w2))"

text \<open>
  The loop of \<^verbatim>\<open>mpi_waitall\<close> over \<^verbatim>\<open>requests[0..count-1]\<close>; the list holds
  these \<open>count\<close> entries, and \<open>called\<close> is the \<^verbatim>\<open>std::unordered_set\<close> of the ids handled
  so far.
\<close>

fun waitall_loop ::
  "request_t list \<Rightarrow> request_t set \<Rightarrow> otf2_time_t \<Rightarrow> writer \<Rightarrow> failure + writer" where
  "waitall_loop [] called start w = Inr w"
| "waitall_loop (req # rest) called start w =
     (if req \<noteq> null_request w \<and> req \<notin> called
      then (case complete_call req start w of
              Inl e \<Rightarrow> Inl e
            | Inr w' \<Rightarrow> waitall_loop rest (insert req called) start w')
      else waitall_loop rest called start w)"

definition mpi_waitall ::
  "otf2_time_t \<Rightarrow> otf2_time_t \<Rightarrow> request_t list \<Rightarrow> writer \<Rightarrow>
   failure + OTF2_WRITER_RESULT \<times> writer" where
  "mpi_waitall start stop requests w =
     (let (this_region, w1) = ENTER ''MPI_Waitall'' start stop w
      in case waitall_loop requests {} start w1 of
           Inl e \<Rightarrow> Inl e
         | Inr w2 \<Rightarrow> returned (LEAVE stop this_region w2))"

text \<open>The loop of \<^verbatim>\<open>mpi_testall\<close>: every entry is completed, in order.\<close>

fun testall_loop :: "request_t list \<Rightarrow> otf2_time_t \<Rightarrow> writer \<Rightarrow> failure + writer" where
  "testall_loop [] start w = Inr w"
| "testall_loop (req # rest) start w =
     (case complete_call req start w of
        Inl e \<Rightarrow> Inl e
      | Inr w' \<Rightarrow> testall_loop rest start w')"

definition mpi_testall ::
  "otf2_time_t \<Rightarrow> otf2_time_t \<Rightarrow> request_t list \<Rightarrow> int \<Rightarrow> writer \<Rightarrow>
   failure + OTF2_WRITER_RESULT \<times> writer" where
  "mpi_testall start stop requests flag w =
     (let (this_region, w1) = ENTER ''MPI_Testall'' start stop w
      in if flag \<noteq> 0
         then (case testall_loop requests start w1 of
                 Inl e \<Rightarrow> Inl e
               | Inr w2 \<Rightarrow> returned (LEAVE stop this_region w2))
         else returned (LEAVE stop this_region w1))"

text \<open>
  The loop shared by \<^verbatim>\<open>mpi_waitsome\<close> and \<^verbatim>\<open>mpi_testsome\<close>:
  \<^verbatim>\<open>complete_call(requests[indices[i]], start)\<close> for the \<open>outcount\<close> entries of
  \<open>indices\<close>. An index outside the request array is an undefined read.
\<close>

fun some_loop ::
  "request_t list \<Rightarrow> int list \<Rightarrow> otf2_time_t \<Rightarrow> writer \<Rightarrow> failure + writer" where
  "some_loop requests [] start w = Inr w"
| "some_loop requests (ix # rest) start w =
     (if 0 \<le> ix \<and> ix < int (length requests)
      then (case complete_call (requests ! nat ix) start w of
              Inl e \<Rightarrow> Inl e
            | Inr w' \<Rightarrow> some_loop requests rest start w')
      else Inl (Out_of_bounds ''requests''))"

definition mpi_waitsome ::
  "otf2_time_t \<Rightarrow> otf2_time_t \<Rightarrow> request_t list \<Rightarrow> int list \<Rightarrow> writer \<Rightarrow>
   failure + OTF2_WRITER_RESULT \<times> writer" where
  "mpi_waitsome start stop requests indices w =
     (let (this_region, w1) = ENTER ''MPI_Waitsome'' start stop w
      in case some_loop requests indices start w1 of
           Inl e \<Rightarrow> Inl e
         | Inr w2 \<Rightarrow> returned (LEAVE stop this_region w2))"

definition mpi_testsome ::
  "otf2_time_t \<Rightarrow> otf2_time_t \<Rightarrow> request_t list \<Rightarrow> int list \<Rightarrow> writer \<Rightarrow>
   failure + OTF2_WRITER_RESULT \<times> writer" where
  "mpi_testsome start stop requests indices w =
     (let (this_region, w1) = ENTER ''MPI_Testsome'' start stop w
      in case some_loop requests indices start w1 of
           Inl e \<Rightarrow> Inl e
         | Inr w2 \<Rightarrow> returned (LEAVE stop this_region w2))"


section \<open>The volume of a broadcast\<close>

text \<open>The three rank and size queries are stubs in the source: each returns 0.\<close>

definition get_world_rank :: "int \<Rightarrow> comm_t \<Rightarrow> int" where
  "get_world_rank comm_rank cm = 0"

definition get_comm_rank :: "int \<Rightarrow> comm_t \<Rightarrow> int" where
  "get_comm_rank wrank cm = 0"

definition get_comm_size :: "comm_t \<Rightarrow> 32 word" where
  "get_comm_size cm = 0"

text \<open>The macro \<^verbatim>\<open>COLLECTIVE_WRAPPER(collective, sent, received)\<close>.\<close>

definition COLLECTIVE_WRAPPER ::
  "OTF2_CollectiveOp \<Rightarrow> 64 word \<Rightarrow> 64 word \<Rightarrow> otf2_time_t \<Rightarrow> otf2_time_t \<Rightarrow> comm_t \<Rightarrow> int \<Rightarrow>
   writer \<Rightarrow> writer" where
  "COLLECTIVE_WRAPPER collective sent received start stop cm root w =
     w\<lparr>evt_writer := evt_writer w @
          [MpiCollectiveBegin start, MpiCollectiveEnd stop collective cm root sent received],
       event_count := event_count w + 2\<rparr>"

text \<open>
  \<^verbatim>\<open>mpi_bcast\<close>. \<open>count\<close> is a C \<open>int\<close> (its 32 bits), converted to \<open>uint64_t\<close> for
  \<^verbatim>\<open>count_bytes\<close>; the result is narrowed to the \<open>int\<close> \<^verbatim>\<open>bytes\<close>; the two volumes
  are \<open>int\<close> expressions converted to the \<open>uint64_t\<close> parameters of the sink.
\<close>

definition mpi_bcast ::
  "otf2_time_t \<Rightarrow> otf2_time_t \<Rightarrow> 32 word \<Rightarrow> mpi_type_t \<Rightarrow> int \<Rightarrow> comm_t \<Rightarrow> writer \<Rightarrow>
   failure + OTF2_WRITER_RESULT \<times> writer" where
  "mpi_bcast start stop count ty root cm w =
     (let (this_region, w1) = ENTER ''MPI_Bcast'' start stop w;
          world_root = get_world_rank root cm;
          is_root = (world_root = world_rank w1);
          (b, w2) = count_bytes ty (scast count) w1;
          bytes = (ucast b :: 32 word);
          w3 = COLLECTIVE_WRAPPER OTF2_COLLECTIVE_OP_BCAST
                 (scast (if is_root then bytes * get_comm_size cm else 0))
                 (scast bytes) start stop cm root w2
      in returned (LEAVE stop this_region w3))"

section \<open>Group exclusion\<close>

text \<open>\<^verbatim>\<open>std::set<int>::insert\<close> on the ascending list of the set's elements.\<close>

fun set_insert :: "int \<Rightarrow> int list \<Rightarrow> int list" where
  "set_insert x [] = [x]"
| "set_insert x (y # ys) =
     (if x < y then x # y # ys else if x = y then y # ys else y # set_insert x ys)"

text \<open>\<^verbatim>\<open>std::vector<int>::resize\<close>: cut, or filled up with zeros.\<close>

definition resize :: "nat \<Rightarrow> int list \<Rightarrow> int list" where
  "resize n xs = take n xs @ replicate (n - length xs) 0"

text \<open>
  The loop of \<^verbatim>\<open>mpi_group_excl_first_pass\<close>, from index \<open>i\<close> on. \<open>iter\<close> is the
  iterator into \<^verbatim>\<open>sortedRanks\<close>, held as the elements from its position to the end:
  the empty list is \<^verbatim>\<open>sortedRanks.end()\<close>, which the source dereferences like any
  other position. \<^verbatim>\<open>parent\<close> and \<^verbatim>\<open>subGrp\<close> are references into
  \<^verbatim>\<open>groups_\<close>, so each access goes through the writer.
\<close>

function excl_loop ::
  "int \<Rightarrow> int \<Rightarrow> nat \<Rightarrow> nat \<Rightarrow> int list \<Rightarrow> nat \<Rightarrow> writer \<Rightarrow> failure + writer" where
  "excl_loop grp newgroup numParentRanks i iter nextInsertIndex w =
     (if i < numParentRanks
      then (case iter of
              [] \<Rightarrow> Inl (Out_of_bounds ''*sortedRanks.end()'')
            | nextToAvoid # iter' \<Rightarrow>
                (if length (global_ranks (groups w grp)) \<le> i
                 then Inl (Out_of_bounds ''parent.global_ranks'')
                 else
                   (let nextRank = global_ranks (groups w grp) ! i
                    in if nextToAvoid = int i
                       then excl_loop grp newgroup numParentRanks (Suc i) iter'
                              nextInsertIndex w
                       else if length (global_ranks (groups w newgroup)) \<le> nextInsertIndex
                       then Inl (Out_of_bounds ''subGrp.global_ranks'')
                       else excl_loop grp newgroup numParentRanks (Suc i) iter
                              (Suc nextInsertIndex)
                              (w\<lparr>groups := (groups w)(newgroup :=
                                   (groups w newgroup)\<lparr>global_ranks :=
                                      (global_ranks (groups w newgroup))
                                        [nextInsertIndex := nextRank]\<rparr>)\<rparr>))))
      else Inr w)"
  by pat_completeness auto
termination
  by (relation "measure (\<lambda>(grp, newgroup, n, i, iter, k, w). n - i)") auto

declare excl_loop.simps [simp del]

text \<open>
  \<^verbatim>\<open>mpi_group_excl_first_pass\<close>; \<open>ranks\<close> holds the \<open>count\<close> entries of the array.
  A negative \<^verbatim>\<open>numParentRanks - count\<close> becomes a size beyond
  \<^verbatim>\<open>max_size()\<close>, on which \<^verbatim>\<open>resize\<close> throws.
\<close>

definition mpi_group_excl_first_pass ::
  "otf2_time_t \<Rightarrow> otf2_time_t \<Rightarrow> int \<Rightarrow> int list \<Rightarrow> int \<Rightarrow> writer \<Rightarrow>
   failure + OTF2_WRITER_RESULT \<times> writer" where
  "mpi_group_excl_first_pass start stop grp ranks newgroup w =
     (let sortedRanks = foldl (\<lambda>s r. set_insert r s) [] ranks;
          numParentRanks = length (global_ranks (groups w grp))
      in if numParentRanks < length ranks
         then Inl (Thrown ''std::length_error'')
         else
           (let w1 = w\<lparr>groups := (groups w)(newgroup :=
                        (groups w newgroup)\<lparr>global_ranks :=
                           resize (numParentRanks - length ranks)
                             (global_ranks (groups w newgroup))\<rparr>)\<rparr>
            in case excl_loop grp newgroup numParentRanks 0 sortedRanks 0 w1 of
                 Inl e \<Rightarrow> Inl e
               | Inr w2 \<Rightarrow> Inr (OTF2_WRITER_SUCCESS, w2)))"

section \<open>The group of a communicator\<close>

text \<open>
  \<^verbatim>\<open>mpi_comm_group\<close>: \<^verbatim>\<open>_ENTER\<close>, \<^verbatim>\<open>_LEAVE\<close>, and then the comparison of the
  recorded group with the argument.
\<close>

definition mpi_comm_group ::
  "otf2_time_t \<Rightarrow> otf2_time_t \<Rightarrow> comm_t \<Rightarrow> int \<Rightarrow> writer \<Rightarrow>
   failure + OTF2_WRITER_RESULT \<times> writer" where
  "mpi_comm_group start stop cm grp w =
     (let (this_region, w1) = ENTER ''MPI_Comm_group'' start stop w
      in case LEAVE stop this_region w1 of
           (Return r, w2) \<Rightarrow> Inr (r, w2)
         | (Continue, w2) \<Rightarrow>
             (let comm_st = comms w2 cm
              in if local_group_id comm_st \<noteq> grp
                 then Inl (Thrown ''mismatched commmunicator group in call to MPI_Comm_group'')
                 else Inl Flows_off_end))"

section \<open>Agreement on the global identifiers of communicators\<close>

text \<open>
  Modelled from the spec: the class \<^verbatim>\<open>tree_id\<close> is declared in \<^verbatim>\<open>otf2writer.h\<close>,
  which is not among the sources. The spec calls it a path of child indices (a tree
  coordinate). The path is held innermost level first: a new level starts at 0, advancing
  moves to the next child of the innermost level, removing a level drops it. A fresh
  \<^verbatim>\<open>tree_id\<close> is the empty path.
\<close>

type_synonym tree_id = "nat list"

definition tree_add_level :: "tree_id \<Rightarrow> tree_id" where
  "tree_add_level t = 0 # t"

definition tree_advance :: "tree_id \<Rightarrow> tree_id" where
  "tree_advance t = (case t of [] \<Rightarrow> [] | i # r \<Rightarrow> Suc i # r)"

definition tree_remove_level :: "tree_id \<Rightarrow> tree_id" where
  "tree_remove_level t = tl t"

text \<open>
  Modelled from the spec: the class \<^verbatim>\<open>global_id_assigner\<close> is declared in the same
  header. In the spec the agree pass requests, at a node for which the rank is root, the
  next sequential global identifier from a shared counter, and the assign pass finds by
  tree coordinate the identifier agreed for the node. The assigner keeps the coordinate it
  stands at, the counter and the identifiers given so far, by coordinate.
\<close>

record global_id_assigner =
  current :: tree_id
  next_id :: int
  assigned :: "tree_id \<rightharpoonup> int"

definition add_level :: "global_id_assigner \<Rightarrow> global_id_assigner" where
  "add_level a = a\<lparr>current := tree_add_level (current a)\<rparr>"

definition advance_sub_comm :: "global_id_assigner \<Rightarrow> global_id_assigner" where
  "advance_sub_comm a = a\<lparr>current := tree_advance (current a)\<rparr>"

definition remove_level :: "global_id_assigner \<Rightarrow> global_id_assigner" where
  "remove_level a = a\<lparr>current := tree_remove_level (current a)\<rparr>"

definition assign_current :: "global_id_assigner \<Rightarrow> global_id_assigner" where
  "assign_current a =
     a\<lparr>assigned := (assigned a)(current a \<mapsto> next_id a), next_id := next_id a + 1\<rparr>"

text \<open>
  Modelled from the spec: \<^verbatim>\<open>global_id_assigner::get_id\<close>, the identifier agreed for a
  coordinate. What it yields for a coordinate that no rank has numbered is not said; it is
  the argument \<open>unresolved\<close>.
\<close>

definition get_id :: "int \<Rightarrow> global_id_assigner \<Rightarrow> tree_id \<Rightarrow> int" where
  "get_id unresolved a t = (case assigned a t of Some i \<Rightarrow> i | None \<Rightarrow> unresolved)"

text \<open>
  The three overloads of \<^verbatim>\<open>agree_global_ids\<close>: for a communicator, for a list of
  sub-communicators (of which \<open>agree_loop\<close> is the \<^verbatim>\<open>for\<close> loop) and for the writer,
  which starts at \<^verbatim>\<open>comms_[MPI_COMM_WORLD_ID]\<close>, here the argument \<open>world\<close>.
\<close>

fun agree_global_ids_comm :: "OTF2_MPI_Comm \<Rightarrow> global_id_assigner \<Rightarrow> global_id_assigner"
  and agree_global_ids_subs :: "OTF2_MPI_Comm list \<Rightarrow> global_id_assigner \<Rightarrow> global_id_assigner"
  and agree_loop :: "OTF2_MPI_Comm list \<Rightarrow> global_id_assigner \<Rightarrow> global_id_assigner" where
  "agree_global_ids_comm (OTF2_MPI_Comm lid gid lgrp nm root subs) assigner =
     (let a1 = (if root then assign_current assigner else assigner)
      in if subs = [] then a1 else agree_global_ids_subs subs a1)"
| "agree_global_ids_subs subs assigner = remove_level (agree_loop subs (add_level assigner))"
| "agree_loop [] assigner = assigner"
| "agree_loop (sub # rest) assigner =
     agree_loop rest (agree_global_ids_comm sub (advance_sub_comm assigner))"

definition agree_global_ids :: "OTF2_MPI_Comm \<Rightarrow> global_id_assigner \<Rightarrow> global_id_assigner" where
  "agree_global_ids world assigner = agree_global_ids_subs (sub_comms world) assigner"

text \<open>
  The three overloads of \<^verbatim>\<open>assign_global_ids\<close>. \<open>global_ids\<close> stands for the lookup
  \<^verbatim>\<open>global_ids.get_id\<close> of the constant assigner. Each function returns the records
  with \<^verbatim>\<open>global_id\<close> written, and the \<^verbatim>\<open>tree_id\<close> it leaves behind.
\<close>

fun assign_global_ids_comm ::
    "(tree_id \<Rightarrow> int) \<Rightarrow> OTF2_MPI_Comm \<Rightarrow> tree_id \<Rightarrow> OTF2_MPI_Comm \<times> tree_id"
  and assign_global_ids_subs ::
    "(tree_id \<Rightarrow> int) \<Rightarrow> OTF2_MPI_Comm list \<Rightarrow> tree_id \<Rightarrow> OTF2_MPI_Comm list \<times> tree_id"
  and assign_loop ::
    "(tree_id \<Rightarrow> int) \<Rightarrow> OTF2_MPI_Comm list \<Rightarrow> tree_id \<Rightarrow> OTF2_MPI_Comm list \<times> tree_id" where
  "assign_global_ids_comm global_ids (OTF2_MPI_Comm lid gid lgrp nm root subs) local_ids =
     (let id = global_ids local_ids
      in if subs = [] then (OTF2_MPI_Comm lid id lgrp nm root subs, local_ids)
         else (let (subs', l1) = assign_global_ids_subs global_ids subs local_ids
               in (OTF2_MPI_Comm lid id lgrp nm root subs', l1)))"
| "assign_global_ids_subs global_ids subs local_ids =
     (let (subs', l1) = assign_loop global_ids subs (tree_add_level local_ids)
      in (subs', tree_remove_level l1))"
| "assign_loop global_ids [] local_ids = ([], local_ids)"
| "assign_loop global_ids (sub # rest) local_ids =
     (let (sub', l1) = assign_global_ids_comm global_ids sub (tree_advance local_ids);
          (rest', l2) = assign_loop global_ids rest l1
      in (sub' # rest', l2))"

definition assign_global_ids :: "(tree_id \<Rightarrow> int) \<Rightarrow> OTF2_MPI_Comm \<Rightarrow> OTF2_MPI_Comm" where
  "assign_global_ids global_ids world =
     (case world of
        OTF2_MPI_Comm lid gid lgrp nm root subs \<Rightarrow>
          OTF2_MPI_Comm lid gid lgrp nm root (fst (assign_global_ids_subs global_ids subs [])))"

subsection \<open>The traversal in the words of the spec\<close>

text \<open>
  The order that the spec describes: depth first, the children in creation order, a node
  before its children. \<open>traversal p k cs\<close> lists the communicators below the siblings
  \<open>cs\<close>, each with its tree coordinate, where \<open>p\<close> is the coordinate of the parent
  and \<open>k\<close> siblings come before \<open>cs\<close>.
\<close>

fun traversal :: "tree_id \<Rightarrow> nat \<Rightarrow> OTF2_MPI_Comm list \<Rightarrow> (tree_id \<times> OTF2_MPI_Comm) list" where
  "traversal p k [] = []"
| "traversal p k (OTF2_MPI_Comm lid gid lgrp nm root subs # cs) =
     (Suc k # p, OTF2_MPI_Comm lid gid lgrp nm root subs)
       # traversal (Suc k # p) 0 subs @ traversal p (Suc k) cs"

text \<open>The shape of a forest, with everything but the tree structure forgotten.\<close>

datatype shape = Shape "shape list"

fun shape_of :: "OTF2_MPI_Comm \<Rightarrow> shape" where
  "shape_of (OTF2_MPI_Comm lid gid lgrp nm root subs) = Shape (map shape_of subs)"

fun coordinates :: "tree_id \<Rightarrow> nat \<Rightarrow> shape list \<Rightarrow> tree_id list" where
  "coordinates p k [] = []"
| "coordinates p k (Shape subs # cs) =
     (Suc k # p) # coordinates (Suc k # p) 0 subs @ coordinates p (Suc k) cs"

text \<open>
  The agree pass in the words of the spec: along the traversal, each node for which the
  rank is root takes the next identifier of the counter, stored under the coordinate of
  the node.
\<close>

definition assign_at :: "tree_id \<Rightarrow> global_id_assigner \<Rightarrow> global_id_assigner" where
  "assign_at t a = a\<lparr>assigned := (assigned a)(t \<mapsto> next_id a), next_id := next_id a + 1\<rparr>"

fun agree_along ::
  "(tree_id \<times> OTF2_MPI_Comm) list \<Rightarrow> global_id_assigner \<Rightarrow> global_id_assigner" where
  "agree_along [] a = a"
| "agree_along ((t, c) # tcs) a = agree_along tcs (if is_root c then assign_at t a else a)"

text \<open>
  The assign pass in the words of the spec: every record below the siblings \<open>cs\<close> gets as
  its global identifier what the lookup yields at the coordinate of the record.
\<close>

fun relabel :: "(tree_id \<Rightarrow> int) \<Rightarrow> tree_id \<Rightarrow> nat \<Rightarrow> OTF2_MPI_Comm list \<Rightarrow> OTF2_MPI_Comm list" where
  "relabel f p k [] = []"
| "relabel f p k (OTF2_MPI_Comm lid gid lgrp nm root subs # cs) =
     OTF2_MPI_Comm lid (f (Suc k # p)) lgrp nm root (relabel f (Suc k # p) 0 subs)
       # relabel f p (Suc k) cs"

text \<open>
  A run of three ranks for the scenario of the spec (at least three ranks and a
  communicator over a subset of them). Two communicators are created from WORLD: the first
  over the ranks 0 and 1, of which rank 0 is the root, the second over the ranks 1 and 2,
  of which rank 1 is the root. A rank outside a communicator holds the record of its null
  communicator in that place. The shared counter starts after the identifiers of WORLD and
  SELF.
\<close>

definition rank0_world :: OTF2_MPI_Comm where
  "rank0_world =
     OTF2_MPI_Comm 0 0 1 ''MPI_COMM_WORLD'' False
       [OTF2_MPI_Comm 10 (- 1) 2 [] True [], OTF2_MPI_Comm 99 (- 1) 0 [] False []]"

definition rank1_world :: OTF2_MPI_Comm where
  "rank1_world =
     OTF2_MPI_Comm 0 0 1 ''MPI_COMM_WORLD'' False
       [OTF2_MPI_Comm 20 (- 1) 2 [] False [], OTF2_MPI_Comm 21 (- 1) 3 [] True []]"

definition rank2_world :: OTF2_MPI_Comm where
  "rank2_world =
     OTF2_MPI_Comm 0 0 1 ''MPI_COMM_WORLD'' False
       [OTF2_MPI_Comm 99 (- 1) 0 [] False [], OTF2_MPI_Comm 30 (- 1) 3 [] False []]"

definition agreed :: global_id_assigner where
  "agreed =
     agree_global_ids rank2_world
       (agree_global_ids rank1_world
          (agree_global_ids rank0_world
             \<lparr>current = [], next_id = 2, assigned = Map.empty\<rparr>))"

section \<open>Notions used in the statements\<close>

text \<open>
  The writer as it stands after the constructor, \<^verbatim>\<open>open_archive\<close> with the given
  world size and rank, and \<^verbatim>\<open>register_null_request\<close>. Every table is empty, the
  verbosity is the \<^verbatim>\<open>OWV_NONE\<close> of the constructor; the numbers of the default
  communicator record are taken as 0.
\<close>

definition OTF2_Writer :: "int \<Rightarrow> int \<Rightarrow> request_t \<Rightarrow> writer" where
  "OTF2_Writer sz rank null_req =
     \<lparr>world_rank = rank, world_size = sz, start_time = - 1, stop_time = 0,
      event_count = 0, null_request = null_req, type_sizes = Map.empty,
      request_type = Map.empty, irecv_requests = Map.empty, otf2_regions_table = [],
      evt_writer = [], verbosity = OWV_NONE, printed = [], groups = (\<lambda>g. \<lparr>global_ranks = []\<rparr>),
      comms = (\<lambda>c. OTF2_MPI_Comm 0 0 0 [] False [])\<rparr>"

definition set_verbosity :: "OTF2_WRITER_VERBOSITY \<Rightarrow> writer \<Rightarrow> writer" where
  "set_verbosity v w = w\<lparr>verbosity := v\<rparr>"

definition register_type :: "mpi_type_t \<Rightarrow> int \<Rightarrow> writer \<Rightarrow> writer" where
  "register_type ty sz w = w\<lparr>type_sizes := (type_sizes w)(ty \<mapsto> sz)\<rparr>"

text \<open>
  Two writers with request 5 pending: as a send, and as a receive whose captured payload
  is 16 bytes from source 1 with tag 2 on communicator 0.
\<close>

definition pending_isend :: writer where
  "pending_isend = (OTF2_Writer 4 0 (- 1))\<lparr>request_type := [5 \<mapsto> REQUEST_TYPE_ISEND]\<rparr>"

definition pending_irecv :: writer where
  "pending_irecv =
     (OTF2_Writer 4 0 (- 1))
       \<lparr>request_type := [5 \<mapsto> REQUEST_TYPE_IRECV],
        irecv_requests :=
          [5 \<mapsto> \<lparr>bytes_sent = 16, source = 1, tag = 2, comm = 0, request = 5\<rparr>]\<rparr>"

text \<open>
  A request is live when the tracker holds what \<^verbatim>\<open>complete_call\<close> needs to complete
  it: a kind, and for a receive the captured payload.
\<close>

definition live :: "writer \<Rightarrow> request_t \<Rightarrow> bool" where
  "live w r =
     (request_type w r = Some REQUEST_TYPE_ISEND
      \<or> (request_type w r = Some REQUEST_TYPE_IRECV \<and> (\<exists>c. irecv_requests w r = Some c)))"

text \<open>The completion records of a request among the records written.\<close>

fun completes :: "request_t \<Rightarrow> otf2_event \<Rightarrow> bool" where
  "completes r (MpiIsendComplete t q) = (q = r)"
| "completes r (MpiIrecv t s c g b q) = (q = r)"
| "completes r e = False"

definition completions :: "request_t \<Rightarrow> otf2_event list \<Rightarrow> nat" where
  "completions r evs = length (filter (completes r) evs)"

text \<open>\<^verbatim>\<open>bytes(type, count)\<close> for the type sizes of a writer: the value of \<open>count_bytes\<close>.\<close>

definition bytes :: "writer \<Rightarrow> mpi_type_t \<Rightarrow> 64 word \<Rightarrow> 64 word" where
  "bytes w ty count = fst (count_bytes ty count w)"

section \<open>Facts about the brackets and the byte count\<close>

lemma ENTER_fields [simp]:
  "request_type (snd (ENTER nm start stop w)) = request_type w"
  "irecv_requests (snd (ENTER nm start stop w)) = irecv_requests w"
  "null_request (snd (ENTER nm start stop w)) = null_request w"
  "type_sizes (snd (ENTER nm start stop w)) = type_sizes w"
  "world_rank (snd (ENTER nm start stop w)) = world_rank w"
  "comms (snd (ENTER nm start stop w)) = comms w"
  "evt_writer (snd (ENTER nm start stop w)) = evt_writer w @ [Enter start (fst (ENTER nm start stop w))]"
  by (simp_all add: ENTER_def logger_def Let_def split: prod.splits)

lemma returned_LEAVE [simp]:
  "returned (LEAVE stop reg w) =
     Inr (OTF2_WRITER_SUCCESS, w\<lparr>evt_writer := evt_writer w @ [Leave stop reg],
        event_count := event_count w + 1\<rparr>)"
  by (simp add: returned_def LEAVE_def)

lemma count_bytes_fields [simp]:
  "request_type (snd (count_bytes ty count w)) = request_type w"
  "irecv_requests (snd (count_bytes ty count w)) = irecv_requests w"
  "null_request (snd (count_bytes ty count w)) = null_request w"
  "type_sizes (snd (count_bytes ty count w)) = type_sizes w"
  "evt_writer (snd (count_bytes ty count w)) = evt_writer w"
  "world_rank (snd (count_bytes ty count w)) = world_rank w"
  by (simp_all add: count_bytes_def logger_def split: option.splits)

lemma count_bytes_value:
  "fst (count_bytes ty count w) =
     (case type_sizes w ty of None \<Rightarrow> 4 * count | Some sz \<Rightarrow> word_of_int sz * count)"
  by (simp add: count_bytes_def split: option.splits)

lemma bytes_ENTER [simp]: "bytes (snd (ENTER nm start stop w)) ty count = bytes w ty count"
  by (simp add: bytes_def count_bytes_value)

lemma complete_call_live:
  assumes "live w r"
  shows "\<exists>w'. complete_call r t w = Inr w' \<and> request_type w' = (request_type w)(r := None)
     \<and> null_request w' = null_request w
     \<and> completions q (evt_writer w') = completions q (evt_writer w) + (if q = r then 1 else 0)
     \<and> (\<forall>x. x \<noteq> r \<longrightarrow> irecv_requests w' x = irecv_requests w x)"
  using assms
  by (auto simp: live_def complete_call_def completions_def)

lemma complete_call_Inr:
  assumes "complete_call r t w = Inr w'"
  shows "null_request w' = null_request w"
    and "request_type w' = (request_type w)(r := None)"
    and "r \<noteq> null_request w \<Longrightarrow>
           completions q (evt_writer w') = completions q (evt_writer w) + (if q = r then 1 else 0)"
    and "\<forall>x. x \<noteq> r \<longrightarrow> irecv_requests w' x = irecv_requests w x"
    and "type_sizes w' = type_sizes w"
  using assms
  by (auto simp: complete_call_def completions_def split: option.splits REQUEST_TYPE.splits if_splits)

section \<open>Completing a request that is not tracked\<close>

text \<open>
  Claim C1. For every request id and timestamp, \<^verbatim>\<open>complete_call\<close> on an id that the
  tracker does not hold leaves the writer as it is when the id is the registered null
  request, whatever the state of the writer, and aborts the run when it is not.
\<close>

theorem complete_call_untracked:
  assumes "request_type w r = None"
  shows "complete_call r t w =
           (if r = null_request w then Inr w else Inl (Abort_request_not_found r))"
  using assms by (simp add: complete_call_def)

theorem complete_call_untracked_witness:
  "request_type (OTF2_Writer 4 0 (- 1)) 7 = None
   \<and> complete_call 7 100 (OTF2_Writer 4 0 (- 1)) = Inl (Abort_request_not_found 7)
   \<and> complete_call (- 1) 100 (OTF2_Writer 4 0 (- 1)) = Inr (OTF2_Writer 4 0 (- 1))"
  using complete_call_untracked [of "OTF2_Writer 4 0 (- 1)" 7 100]
    complete_call_untracked [of "OTF2_Writer 4 0 (- 1)" "- 1" 100]
  by (simp add: OTF2_Writer_def)

section \<open>Waitall completes each request once\<close>

lemma waitall_loop_completions:
  "waitall_loop reqs called start w = Inr w' \<Longrightarrow>
     null_request w' = null_request w \<and>
     completions r (evt_writer w') =
       completions r (evt_writer w)
         + (if r \<in> set reqs \<and> r \<notin> called \<and> r \<noteq> null_request w then 1 else 0)"
proof (induction reqs arbitrary: called w)
  case Nil
  then show ?case by simp
next
  case (Cons req rest)
  show ?case
  proof (cases "req \<noteq> null_request w \<and> req \<notin> called")
    case True
    with Cons.prems obtain w1 where c: "complete_call req start w = Inr w1"
      and l: "waitall_loop rest (insert req called) start w1 = Inr w'"
      by (auto split: sum.splits)
    from complete_call_Inr [OF c] True
    have n: "null_request w1 = null_request w"
      and e: "completions r (evt_writer w1) =
                completions r (evt_writer w) + (if r = req then 1 else 0)"
      by simp_all
    from Cons.IH [OF l] n e True show ?thesis by auto
  next
    case False
    with Cons.prems have "waitall_loop rest called start w = Inr w'" by auto
    from Cons.IH [OF this] False show ?thesis by auto
  qed
qed

lemma live_cong:
  "request_type w1 x = request_type w x \<Longrightarrow> irecv_requests w1 x = irecv_requests w x \<Longrightarrow>
     live w1 x = live w x"
  by (simp add: live_def)

lemma waitall_loop_returns:
  "(\<forall>r \<in> set reqs. r \<noteq> null_request w \<and> r \<notin> called \<longrightarrow> live w r) \<Longrightarrow>
     \<exists>w'. waitall_loop reqs called start w = Inr w'"
proof (induction reqs arbitrary: called w)
  case Nil
  then show ?case by simp
next
  case (Cons req rest)
  show ?case
  proof (cases "req \<noteq> null_request w \<and> req \<notin> called")
    case True
    with Cons.prems have "live w req" by simp
    from complete_call_live [OF this, of start req] obtain w1
      where c: "complete_call req start w = Inr w1"
        and t: "request_type w1 = (request_type w)(req := None)"
        and n: "null_request w1 = null_request w"
        and i: "\<forall>x. x \<noteq> req \<longrightarrow> irecv_requests w1 x = irecv_requests w x"
      by blast
    have "\<forall>r \<in> set rest. r \<noteq> null_request w1 \<and> r \<notin> insert req called \<longrightarrow> live w1 r"
    proof (intro ballI impI)
      fix x assume x: "x \<in> set rest" and h: "x \<noteq> null_request w1 \<and> x \<notin> insert req called"
      then have "x \<noteq> req" by simp
      with t i have "live w1 x = live w x" by (intro live_cong) simp_all
      with Cons.prems x h n show "live w1 x" by simp
    qed
    from Cons.IH [OF this] c True show ?thesis by simp
  next
    case False
    have "\<forall>r \<in> set rest. r \<noteq> null_request w \<and> r \<notin> called \<longrightarrow> live w r"
      using Cons.prems by simp
    from Cons.IH [OF this] False show ?thesis by auto
  qed
qed

lemma live_ENTER [simp]: "live (snd (ENTER nm start stop w)) r = live w r"
  by (simp add: live_def)

lemma completions_append [simp]:
  "completions r (xs @ ys) = completions r xs + completions r ys"
  by (simp add: completions_def)

lemma completions_bracket [simp]:
  "completions r [Enter t g] = 0" "completions r [Leave t g] = 0"
  by (simp_all add: completions_def)

text \<open>
  Claim C5. Within one call of \<^verbatim>\<open>mpi_waitall\<close> every non-null id of the array is
  completed once, however often it occurs, and no other id is completed: a call that
  returns has written exactly one completion record for each such id and none for the
  null request. The call returns whenever the non-null ids of the array are live; in
  particular an array that holds a live id twice completes it exactly once.
\<close>

theorem mpi_waitall_completes_once:
  "(mpi_waitall start stop requests w = Inr (res, w') \<longrightarrow>
      completions r (evt_writer w') =
        completions r (evt_writer w)
          + (if r \<in> set requests \<and> r \<noteq> null_request w then 1 else 0))
   \<and> ((\<forall>q \<in> set requests. q \<noteq> null_request w \<longrightarrow> live w q) \<longrightarrow>
        (\<exists>w1. mpi_waitall start stop requests w = Inr (OTF2_WRITER_SUCCESS, w1)))
   \<and> (live w r \<and> r \<noteq> null_request w \<longrightarrow>
        (\<exists>w2. mpi_waitall start stop [r, r] w = Inr (OTF2_WRITER_SUCCESS, w2)
           \<and> completions r (evt_writer w2) = completions r (evt_writer w) + 1
           \<and> request_type w2 r = None))"
proof (intro conjI impI)
  assume a: "mpi_waitall start stop requests w = Inr (res, w')"
  obtain reg w0 where en: "ENTER ''MPI_Waitall'' start stop w = (reg, w0)"
    by (cases "ENTER ''MPI_Waitall'' start stop w")
  then have w0: "w0 = snd (ENTER ''MPI_Waitall'' start stop w)" by simp
  from a en obtain w1 where l: "waitall_loop requests {} start w0 = Inr w1"
    and w': "w' = w1\<lparr>evt_writer := evt_writer w1 @ [Leave stop reg],
                     event_count := event_count w1 + 1\<rparr>"
    by (auto simp: mpi_waitall_def split: sum.splits)
  from waitall_loop_completions [OF l, of r] w' w0
  show "completions r (evt_writer w') =
        completions r (evt_writer w)
          + (if r \<in> set requests \<and> r \<noteq> null_request w then 1 else 0)"
    by simp
next
  assume a: "\<forall>q \<in> set requests. q \<noteq> null_request w \<longrightarrow> live w q"
  obtain reg w0 where en: "ENTER ''MPI_Waitall'' start stop w = (reg, w0)"
    by (cases "ENTER ''MPI_Waitall'' start stop w")
  then have w0: "w0 = snd (ENTER ''MPI_Waitall'' start stop w)" by simp
  have "\<forall>q \<in> set requests. q \<noteq> null_request w0 \<and> q \<notin> {} \<longrightarrow> live w0 q"
    using a w0 by simp
  from waitall_loop_returns [OF this, of start] en
  show "\<exists>w1. mpi_waitall start stop requests w = Inr (OTF2_WRITER_SUCCESS, w1)"
    by (auto simp: mpi_waitall_def)
next
  assume a: "live w r \<and> r \<noteq> null_request w"
  obtain reg w0 where en: "ENTER ''MPI_Waitall'' start stop w = (reg, w0)"
    by (cases "ENTER ''MPI_Waitall'' start stop w")
  then have w0: "w0 = snd (ENTER ''MPI_Waitall'' start stop w)" by simp
  have l0: "live w0 r" and n0: "null_request w0 = null_request w"
    and e0: "completions r (evt_writer w0) = completions r (evt_writer w)"
    using a w0 by simp_all
  from complete_call_live [OF l0, of start r] obtain w1
    where c: "complete_call r start w0 = Inr w1"
      and t: "request_type w1 = (request_type w0)(r := None)"
      and n1: "null_request w1 = null_request w0"
      and e: "completions r (evt_writer w1) = completions r (evt_writer w0) + 1"
    by auto
  show "\<exists>w2. mpi_waitall start stop [r, r] w = Inr (OTF2_WRITER_SUCCESS, w2)
           \<and> completions r (evt_writer w2) = completions r (evt_writer w) + 1
           \<and> request_type w2 r = None"
    using a en c t e n0 n1 e0 by (simp add: mpi_waitall_def)
qed

lemma pending_isend_facts:
  "live pending_isend 5" "5 \<noteq> null_request pending_isend"
  "live pending_isend q = (q = 5)"
  by (simp_all add: pending_isend_def live_def OTF2_Writer_def)

theorem mpi_waitall_completes_once_witness:
  "live pending_isend 5 \<and> 5 \<noteq> null_request pending_isend
   \<and> (\<exists>w1. mpi_waitall 100 200 [5, - 1, 5] pending_isend = Inr (OTF2_WRITER_SUCCESS, w1)
         \<and> completions 5 (evt_writer w1) = completions 5 (evt_writer pending_isend) + 1)
   \<and> (\<exists>w2. mpi_waitall 100 200 [5, 5] pending_isend = Inr (OTF2_WRITER_SUCCESS, w2)
         \<and> completions 5 (evt_writer w2) = completions 5 (evt_writer pending_isend) + 1
         \<and> request_type w2 5 = None)"
proof -
  note T = mpi_waitall_completes_once [of 100 200 "[5, - 1, 5]" pending_isend _ _ 5]
  have "\<forall>q \<in> set [5, - 1, 5]. q \<noteq> null_request pending_isend \<longrightarrow> live pending_isend q"
    by (simp add: pending_isend_facts) (simp add: pending_isend_def OTF2_Writer_def)
  with T obtain w1
    where r: "mpi_waitall 100 200 [5, - 1, 5] pending_isend = Inr (OTF2_WRITER_SUCCESS, w1)"
    by blast
  with mpi_waitall_completes_once [of 100 200 "[5, - 1, 5]" pending_isend OTF2_WRITER_SUCCESS w1 5]
  have "completions 5 (evt_writer w1) = completions 5 (evt_writer pending_isend) + 1"
    by (simp add: pending_isend_facts)
  with r T pending_isend_facts(1,2) show ?thesis by blast
qed

section \<open>The other batch calls complete every entry\<close>

lemma testall_loop_untracked:
  "r \<in> set reqs \<Longrightarrow> r \<noteq> null_request w \<Longrightarrow> request_type w r = None \<Longrightarrow>
     isl (testall_loop reqs start w)"
proof (induction reqs arbitrary: w)
  case Nil
  then show ?case by simp
next
  case (Cons x xs)
  show ?case
  proof (cases "complete_call x start w")
    case (Inl e)
    then show ?thesis by simp
  next
    case (Inr w1)
    from complete_call_Inr(1,2) [OF Inr]
    have n: "null_request w1 = null_request w" and t: "request_type w1 r = None"
      using Cons.prems by simp_all
    have "x \<noteq> r" using Inr Cons.prems by (auto simp: complete_call_def)
    with Cons.prems have "r \<in> set xs" by simp
    from Cons.IH [OF this _ t] n Cons.prems Inr show ?thesis by simp
  qed
qed

lemma testall_loop_repeated:
  "2 \<le> count_list reqs r \<Longrightarrow> r \<noteq> null_request w \<Longrightarrow> isl (testall_loop reqs start w)"
proof (induction reqs arbitrary: w)
  case Nil
  then show ?case by simp
next
  case (Cons x xs)
  show ?case
  proof (cases "complete_call x start w")
    case (Inl e)
    then show ?thesis by simp
  next
    case (Inr w1)
    from complete_call_Inr(1,2) [OF Inr]
    have n: "null_request w1 = null_request w"
      and t: "request_type w1 = (request_type w)(x := None)" by simp_all
    show ?thesis
    proof (cases "x = r")
      case True
      with Cons.prems have "1 \<le> count_list xs r" by simp
      then have "r \<in> set xs" by (metis count_list_0_iff not_one_le_zero)
      from testall_loop_untracked [OF this, of w1 start] n t True Cons.prems Inr
      show ?thesis by simp
    next
      case False
      with Cons.prems have "2 \<le> count_list xs r" by simp
      from Cons.IH [OF this, of w1] n Cons.prems Inr show ?thesis by simp
    qed
  qed
qed

lemma some_loop_pair:
  assumes "live w r" "r \<noteq> null_request w" "i < length requests" "j < length requests"
    "requests ! i = r" "requests ! j = r"
  shows "some_loop requests [int i, int j] start w = Inl (Abort_request_not_found r)"
proof -
  from complete_call_live [OF assms(1), of start r] obtain w1
    where c: "complete_call r start w = Inr w1"
      and t: "request_type w1 = (request_type w)(r := None)"
      and n: "null_request w1 = null_request w" by auto
  have "complete_call r start w1 = Inl (Abort_request_not_found r)"
    using t n assms(2) by (simp add: complete_call_def)
  with c assms show ?thesis by simp
qed

text \<open>
  Claim C9. \<^verbatim>\<open>mpi_testall\<close> with a true flag aborts on every array in which a non-null
  id occurs twice; over a live id repeated twice it is the second attempt that aborts,
  the first having removed the id. \<^verbatim>\<open>mpi_waitsome\<close> and \<^verbatim>\<open>mpi_testsome\<close> abort in
  the same way when two of their indices select the same live id: none of the three
  removes repeated ids as \<^verbatim>\<open>mpi_waitall\<close> does.
\<close>

theorem batch_variants_do_not_deduplicate:
  "(flag \<noteq> 0 \<and> r \<noteq> null_request w \<and> 2 \<le> count_list requests r \<longrightarrow>
      isl (mpi_testall start stop requests flag w))
   \<and> (flag \<noteq> 0 \<and> r \<noteq> null_request w \<and> live w r \<longrightarrow>
        mpi_testall start stop [r, r] flag w = Inl (Abort_request_not_found r))
   \<and> (r \<noteq> null_request w \<and> live w r \<and> i < length requests \<and> j < length requests
        \<and> requests ! i = r \<and> requests ! j = r \<longrightarrow>
        mpi_waitsome start stop requests [int i, int j] w = Inl (Abort_request_not_found r)
        \<and> mpi_testsome start stop requests [int i, int j] w = Inl (Abort_request_not_found r))"
proof (intro conjI impI)
  assume a: "flag \<noteq> 0 \<and> r \<noteq> null_request w \<and> 2 \<le> count_list requests r"
  obtain reg w0 where en: "ENTER ''MPI_Testall'' start stop w = (reg, w0)"
    by (cases "ENTER ''MPI_Testall'' start stop w")
  then have w0: "w0 = snd (ENTER ''MPI_Testall'' start stop w)" by simp
  have "r \<noteq> null_request w0" using a w0 by simp
  with a have "isl (testall_loop requests start w0)"
    by (intro testall_loop_repeated [of requests r]) simp_all
  then obtain e where "testall_loop requests start w0 = Inl e"
    by (cases "testall_loop requests start w0") simp_all
  with a en show "isl (mpi_testall start stop requests flag w)"
    by (simp add: mpi_testall_def)
next
  assume a: "flag \<noteq> 0 \<and> r \<noteq> null_request w \<and> live w r"
  obtain reg w0 where en: "ENTER ''MPI_Testall'' start stop w = (reg, w0)"
    by (cases "ENTER ''MPI_Testall'' start stop w")
  then have w0: "w0 = snd (ENTER ''MPI_Testall'' start stop w)" by simp
  have l0: "live w0 r" and n0: "r \<noteq> null_request w0" using a w0 by simp_all
  from complete_call_live [OF l0, of start r] obtain w1
    where c: "complete_call r start w0 = Inr w1"
      and t: "request_type w1 = (request_type w0)(r := None)"
      and n: "null_request w1 = null_request w0" by auto
  have "complete_call r start w1 = Inl (Abort_request_not_found r)"
    using t n n0 by (simp add: complete_call_def)
  with a en c show "mpi_testall start stop [r, r] flag w = Inl (Abort_request_not_found r)"
    by (simp add: mpi_testall_def)
next
  assume a: "r \<noteq> null_request w \<and> live w r \<and> i < length requests \<and> j < length requests
        \<and> requests ! i = r \<and> requests ! j = r"
  obtain reg w0 where en: "ENTER ''MPI_Waitsome'' start stop w = (reg, w0)"
    by (cases "ENTER ''MPI_Waitsome'' start stop w")
  then have w0: "w0 = snd (ENTER ''MPI_Waitsome'' start stop w)" by simp
  have l0: "live w0 r" and n0: "r \<noteq> null_request w0" using a w0 by simp_all
  from some_loop_pair [OF l0 n0, of i requests j start] a en
  show "mpi_waitsome start stop requests [int i, int j] w = Inl (Abort_request_not_found r)"
    by (simp add: mpi_waitsome_def)
next
  assume a: "r \<noteq> null_request w \<and> live w r \<and> i < length requests \<and> j < length requests
        \<and> requests ! i = r \<and> requests ! j = r"
  obtain reg w0 where en: "ENTER ''MPI_Testsome'' start stop w = (reg, w0)"
    by (cases "ENTER ''MPI_Testsome'' start stop w")
  then have w0: "w0 = snd (ENTER ''MPI_Testsome'' start stop w)" by simp
  have l0: "live w0 r" and n0: "r \<noteq> null_request w0" using a w0 by simp_all
  from some_loop_pair [OF l0 n0, of i requests j start] a en
  show "mpi_testsome start stop requests [int i, int j] w = Inl (Abort_request_not_found r)"
    by (simp add: mpi_testsome_def)
qed

theorem batch_variants_do_not_deduplicate_witness:
  "(1::int) \<noteq> 0 \<and> 5 \<noteq> null_request pending_isend \<and> live pending_isend 5
   \<and> 2 \<le> count_list [5, 5, 6] (5::int)
   \<and> isl (mpi_testall 100 200 [5, 5, 6] 1 pending_isend)
   \<and> mpi_testall 100 200 [5, 5] 1 pending_isend = Inl (Abort_request_not_found 5)
   \<and> (0::nat) < length [5::int] \<and> [5::int] ! 0 = 5
   \<and> mpi_waitsome 100 200 [5] [0, 0] pending_isend = Inl (Abort_request_not_found 5)
   \<and> mpi_testsome 100 200 [5] [0, 0] pending_isend = Inl (Abort_request_not_found 5)"
  using batch_variants_do_not_deduplicate
      [where flag = 1 and r = 5 and w = pending_isend and requests = "[5, 5, 6]"
         and start = 100 and stop = 200]
    batch_variants_do_not_deduplicate
      [where flag = 1 and r = 5 and w = pending_isend and requests = "[5]"
         and start = 100 and stop = 200 and i = 0 and j = 0]
    pending_isend_facts(1,2)
  by simp

section \<open>Posting and completing receives\<close>

lemma incomplete_call_fields [simp]:
  "irecv_requests (incomplete_call r k w) = irecv_requests w"
  "null_request (incomplete_call r k w) = null_request w"
  "evt_writer (incomplete_call r k w) = evt_writer w"
  "type_sizes (incomplete_call r k w) = type_sizes w"
  "request_type (incomplete_call r k w) =
     (if r \<noteq> null_request w then (request_type w)(r \<mapsto> k) else request_type w)"
  by (simp_all add: incomplete_call_def)

lemma mpi_irecv_result:
  "\<exists>w1. mpi_irecv start stop ty count src cm tg req w = Inr (OTF2_WRITER_SUCCESS, w1)
     \<and> null_request w1 = null_request w
     \<and> type_sizes w1 = type_sizes w
     \<and> request_type w1 =
         (if req \<noteq> null_request w then (request_type w)(req \<mapsto> REQUEST_TYPE_IRECV)
          else request_type w)
     \<and> irecv_requests w1 = (irecv_requests w)(req \<mapsto>
         \<lparr>bytes_sent = bytes w ty count, source = src, tag = tg, comm = cm, request = req\<rparr>)"
proof -
  obtain reg w0 where en: "ENTER ''MPI_Irecv'' start stop w = (reg, w0)"
    by (cases "ENTER ''MPI_Irecv'' start stop w")
  then have w0: "w0 = snd (ENTER ''MPI_Irecv'' start stop w)" by simp
  obtain b w2 where cb: "count_bytes ty count w0 = (b, w2)"
    by (cases "count_bytes ty count w0")
  then have b: "b = bytes w0 ty count" and w2: "w2 = snd (count_bytes ty count w0)"
    by (simp_all add: bytes_def)
  have f: "null_request w2 = null_request w" "type_sizes w2 = type_sizes w"
    "request_type w2 = request_type w" "irecv_requests w2 = irecv_requests w"
    "b = bytes w ty count"
    using w0 w2 b by simp_all
  show ?thesis using en cb f by (simp add: mpi_irecv_def Let_def)
qed

lemma mpi_isend_result:
  "\<exists>w1. mpi_isend start stop ty count dest cm tg req w = Inr (OTF2_WRITER_SUCCESS, w1)
     \<and> null_request w1 = null_request w
     \<and> type_sizes w1 = type_sizes w
     \<and> request_type w1 =
         (if req \<noteq> null_request w then (request_type w)(req \<mapsto> REQUEST_TYPE_ISEND)
          else request_type w)
     \<and> irecv_requests w1 = irecv_requests w"
proof -
  obtain reg w0 where en: "ENTER ''MPI_Isend'' start stop w = (reg, w0)"
    by (cases "ENTER ''MPI_Isend'' start stop w")
  then have w0: "w0 = snd (ENTER ''MPI_Isend'' start stop w)" by simp
  let ?w1 = "incomplete_call req REQUEST_TYPE_ISEND w0"
  obtain b w2 where cb: "count_bytes ty count ?w1 = (b, w2)"
    by (cases "count_bytes ty count ?w1")
  then have w2: "w2 = snd (count_bytes ty count ?w1)" by simp
  have f: "null_request w2 = null_request w" "type_sizes w2 = type_sizes w"
    "request_type w2 = (if req \<noteq> null_request w then (request_type w)(req \<mapsto> REQUEST_TYPE_ISEND)
          else request_type w)" "irecv_requests w2 = irecv_requests w"
    using w0 w2 by simp_all
  show ?thesis using en cb f by (simp add: mpi_isend_def mpi_isend_inner_def Let_def)
qed

lemma complete_call_irecv:
  assumes "request_type w r = Some REQUEST_TYPE_IRECV" "irecv_requests w r = Some c"
  shows "\<exists>w'. complete_call r ts w = Inr w'
     \<and> evt_writer w' = evt_writer w @ [MpiIrecv ts (source c) (comm c) (tag c) (bytes_sent c) r]
     \<and> request_type w' r = None \<and> irecv_requests w' r = None"
  using assms by (simp add: complete_call_def)

lemma complete_call_isend:
  assumes "request_type w r = Some REQUEST_TYPE_ISEND"
  shows "\<exists>w'. complete_call r ts w = Inr w'
     \<and> evt_writer w' = evt_writer w @ [MpiIsendComplete ts r]
     \<and> request_type w' r = None"
  using assms by (simp add: complete_call_def)



text \<open>
  Claim C10. Posting a non-null request id that is already pending is accepted without
  an error: \<^verbatim>\<open>incomplete_call\<close> overwrites the stored kind, a second
  \<^verbatim>\<open>mpi_irecv\<close> overwrites the captured payload too, and the completion that follows
  writes the record of the most recent post and removes the request.
\<close>

theorem repost_overwrites_pending_request:
  assumes "req \<noteq> null_request w" and "request_type w req = Some k"
  shows "incomplete_call req k' w = w\<lparr>request_type := (request_type w)(req \<mapsto> k')\<rparr>
     \<and> (\<exists>w1. mpi_irecv start stop ty count src cm tg req w = Inr (OTF2_WRITER_SUCCESS, w1)
           \<and> request_type w1 req = Some REQUEST_TYPE_IRECV
           \<and> irecv_requests w1 req = Some
               \<lparr>bytes_sent = bytes w ty count, source = src, tag = tg, comm = cm,
                request = req\<rparr>
           \<and> (\<exists>w2. complete_call req ts w1 = Inr w2
                 \<and> evt_writer w2 =
                     evt_writer w1 @ [MpiIrecv ts src cm tg (bytes w ty count) req]
                 \<and> request_type w2 req = None))
     \<and> (\<exists>w1. mpi_isend start stop ty count dest cm tg req w = Inr (OTF2_WRITER_SUCCESS, w1)
           \<and> request_type w1 req = Some REQUEST_TYPE_ISEND
           \<and> (\<exists>w2. complete_call req ts w1 = Inr w2
                 \<and> evt_writer w2 = evt_writer w1 @ [MpiIsendComplete ts req]
                 \<and> request_type w2 req = None))"
proof (intro conjI)
  show "incomplete_call req k' w = w\<lparr>request_type := (request_type w)(req \<mapsto> k')\<rparr>"
    using assms by (simp add: incomplete_call_def)
next
  from mpi_irecv_result [of start stop ty count src cm tg req w] obtain w1
    where p: "mpi_irecv start stop ty count src cm tg req w = Inr (OTF2_WRITER_SUCCESS, w1)"
      and t: "request_type w1 req = Some REQUEST_TYPE_IRECV"
      and i: "irecv_requests w1 req = Some
         \<lparr>bytes_sent = bytes w ty count, source = src, tag = tg, comm = cm, request = req\<rparr>"
    using assms by auto
  from complete_call_irecv [OF t i, of ts] p t i
  show "\<exists>w1. mpi_irecv start stop ty count src cm tg req w = Inr (OTF2_WRITER_SUCCESS, w1)
           \<and> request_type w1 req = Some REQUEST_TYPE_IRECV
           \<and> irecv_requests w1 req = Some
               \<lparr>bytes_sent = bytes w ty count, source = src, tag = tg, comm = cm,
                request = req\<rparr>
           \<and> (\<exists>w2. complete_call req ts w1 = Inr w2
                 \<and> evt_writer w2 =
                     evt_writer w1 @ [MpiIrecv ts src cm tg (bytes w ty count) req]
                 \<and> request_type w2 req = None)"
    by auto
next
  from mpi_isend_result [of start stop ty count dest cm tg req w] obtain w1
    where p: "mpi_isend start stop ty count dest cm tg req w = Inr (OTF2_WRITER_SUCCESS, w1)"
      and t: "request_type w1 req = Some REQUEST_TYPE_ISEND"
    using assms by auto
  from complete_call_isend [OF t, of ts] p t
  show "\<exists>w1. mpi_isend start stop ty count dest cm tg req w = Inr (OTF2_WRITER_SUCCESS, w1)
           \<and> request_type w1 req = Some REQUEST_TYPE_ISEND
           \<and> (\<exists>w2. complete_call req ts w1 = Inr w2
                 \<and> evt_writer w2 = evt_writer w1 @ [MpiIsendComplete ts req]
                 \<and> request_type w2 req = None)"
    by auto
qed

theorem repost_overwrites_pending_request_witness:
  "5 \<noteq> null_request pending_irecv
   \<and> request_type pending_irecv 5 = Some REQUEST_TYPE_IRECV
   \<and> irecv_requests pending_irecv 5 =
       Some \<lparr>bytes_sent = 16, source = 1, tag = 2, comm = 0, request = 5\<rparr>
   \<and> (\<exists>w1. mpi_irecv 100 200 1 10 3 0 7 5 pending_irecv = Inr (OTF2_WRITER_SUCCESS, w1)
         \<and> irecv_requests w1 5 =
             Some \<lparr>bytes_sent = 40, source = 3, tag = 7, comm = 0, request = 5\<rparr>
         \<and> (\<exists>w2. complete_call 5 300 w1 = Inr w2
               \<and> evt_writer w2 = evt_writer w1 @ [MpiIrecv 300 3 0 7 40 5]
               \<and> request_type w2 5 = None))
   \<and> (\<exists>w1. mpi_isend 100 200 1 10 3 0 7 5 pending_irecv = Inr (OTF2_WRITER_SUCCESS, w1)
         \<and> request_type w1 5 = Some REQUEST_TYPE_ISEND
         \<and> (\<exists>w2. complete_call 5 300 w1 = Inr w2
               \<and> evt_writer w2 = evt_writer w1 @ [MpiIsendComplete 300 5]
               \<and> request_type w2 5 = None))"
proof -
  have n: "5 \<noteq> null_request pending_irecv"
    and k: "request_type pending_irecv 5 = Some REQUEST_TYPE_IRECV"
    and i: "irecv_requests pending_irecv 5 =
       Some \<lparr>bytes_sent = 16, source = 1, tag = 2, comm = 0, request = 5\<rparr>"
    by (simp_all add: pending_irecv_def OTF2_Writer_def)
  have b: "bytes pending_irecv 1 10 = 40"
    by (simp add: bytes_def count_bytes_def pending_irecv_def OTF2_Writer_def)
  from repost_overwrites_pending_request
    [OF n k, where k' = REQUEST_TYPE_IRECV and start = 100 and stop = 200 and ty = 1
       and count = 10 and src = 3 and cm = 0 and tg = 7 and ts = 300 and dest = 3]
  have "(\<exists>w1. mpi_irecv 100 200 1 10 3 0 7 5 pending_irecv = Inr (OTF2_WRITER_SUCCESS, w1)
         \<and> irecv_requests w1 5 =
             Some \<lparr>bytes_sent = 40, source = 3, tag = 7, comm = 0, request = 5\<rparr>
         \<and> (\<exists>w2. complete_call 5 300 w1 = Inr w2
               \<and> evt_writer w2 = evt_writer w1 @ [MpiIrecv 300 3 0 7 40 5]
               \<and> request_type w2 5 = None))"
    and "(\<exists>w1. mpi_isend 100 200 1 10 3 0 7 5 pending_irecv = Inr (OTF2_WRITER_SUCCESS, w1)
         \<and> request_type w1 5 = Some REQUEST_TYPE_ISEND
         \<and> (\<exists>w2. complete_call 5 300 w1 = Inr w2
               \<and> evt_writer w2 = evt_writer w1 @ [MpiIsendComplete 300 5]
               \<and> request_type w2 5 = None))"
    unfolding b by blast+
  with n k i show ?thesis by blast
qed

section \<open>Unknown datatypes\<close>

text \<open>
  Claim C8. The claim has \<^verbatim>\<open>count_bytes\<close> log on every unknown handle. For the writer
  as the constructor leaves it, of verbosity \<^verbatim>\<open>OWV_NONE\<close>, and the handle 9, which has
  no entry, the call prints nothing.
\<close>

theorem count_bytes_prints_nothing_at_default_verbosity:
  "type_sizes (OTF2_Writer 4 0 (- 1)) 9 = None
   \<and> fst (count_bytes 9 10 (OTF2_Writer 4 0 (- 1))) = 40
   \<and> printed (snd (count_bytes 9 10 (OTF2_Writer 4 0 (- 1)))) = []"
  by (simp add: count_bytes_def logger_def OTF2_Writer_def)

text \<open>
  Claim C8, as amended. For a datatype handle that has no entry in the table of type
  sizes, \<^verbatim>\<open>count_bytes\<close> returns 4 times the count (in \<open>uint64_t\<close> arithmetic) and
  returns to its caller, without ending the run. It prints one line, the message behind
  the prefix of an error, when the verbosity of the writer is not \<^verbatim>\<open>OWV_NONE\<close> and lets
  the level \<^verbatim>\<open>OWV_ERROR\<close> through; otherwise it prints nothing. Nothing else of the
  writer changes.
\<close>

theorem count_bytes_unknown_type:
  assumes "type_sizes w ty = None"
  shows "fst (count_bytes ty count w) = 4 * count
     \<and> snd (count_bytes ty count w) =
         (if verbosity_value OWV_ERROR \<le> verbosity_value (verbosity w)
             \<and> verbosity w \<noteq> OWV_NONE
          then w\<lparr>printed := printed w @
                 [''OTF2 WRITER  (ERR): Unkown data type ('' @ to_string ty
                    @ ''). Assuming 4 bytes in size.'']\<rparr>
          else w)"
  using assms by (simp add: count_bytes_def logger_def)

theorem count_bytes_unknown_type_witness:
  "type_sizes (set_verbosity OWV_WARN (OTF2_Writer 4 0 (- 1))) 9 = None
   \<and> fst (count_bytes 9 10 (set_verbosity OWV_WARN (OTF2_Writer 4 0 (- 1)))) = 40
   \<and> printed (snd (count_bytes 9 10 (set_verbosity OWV_WARN (OTF2_Writer 4 0 (- 1))))) =
       [''OTF2 WRITER  (ERR): Unkown data type (9). Assuming 4 bytes in size.'']
   \<and> type_sizes (set_verbosity OWV_ABORT (OTF2_Writer 4 0 (- 1))) 9 = None
   \<and> snd (count_bytes 9 10 (set_verbosity OWV_ABORT (OTF2_Writer 4 0 (- 1)))) =
       set_verbosity OWV_ABORT (OTF2_Writer 4 0 (- 1))"
proof -
  let ?w = "set_verbosity OWV_WARN (OTF2_Writer 4 0 (- 1))"
  let ?v = "set_verbosity OWV_ABORT (OTF2_Writer 4 0 (- 1))"
  have n: "type_sizes ?w 9 = None" and m: "type_sizes ?v 9 = None"
    by (simp_all add: set_verbosity_def OTF2_Writer_def)
  from count_bytes_unknown_type [OF n, where count = 10]
    count_bytes_unknown_type [OF m, where count = 10] n m
  show ?thesis
    by (simp add: to_string_def string_of_nat.simps set_verbosity_def OTF2_Writer_def)
qed

text \<open>
  A handle that was never registered need not be without an entry: \<^verbatim>\<open>mpi_send\<close> reads
  \<^verbatim>\<open>type_sizes_[type]\<close>, which enters the handle with size 0, and from then on
  \<^verbatim>\<open>count_bytes\<close> takes the handle as known, of size 0.
\<close>

lemma mpi_send_enters_unknown_type:
  assumes "type_sizes w ty = None"
  shows "\<exists>w1. mpi_send start stop ty count dest cm tg w = Inr (OTF2_WRITER_SUCCESS, w1)
     \<and> type_sizes w1 ty = Some 0 \<and> count_bytes ty n w1 = (0, w1)"
proof -
  obtain reg w0 where en: "ENTER ''MPI_Send'' start stop w = (reg, w0)"
    by (cases "ENTER ''MPI_Send'' start stop w")
  then have "w0 = snd (ENTER ''MPI_Send'' start stop w)" by simp
  with assms have "type_sizes w0 ty = None" by simp
  with en show ?thesis
    by (simp add: mpi_send_def mpi_send_inner_def count_bytes_def Let_def)
qed

section \<open>Where the code departs from its description\<close>

text \<open>
  Claim C3. The claim has the root of a broadcast report \<open>bytes * comm_size\<close> as sent, 320
  for a communicator of 4 ranks, type size 8 and count 10. On that input the writer of
  rank 0, the root, reports 0 bytes sent and 80 received: \<^verbatim>\<open>get_comm_size\<close> is a stub
  that returns 0.
\<close>

theorem mpi_bcast_root_reports_nothing_sent:
  "\<exists>w'. mpi_bcast 100 200 10 1 0 7 (register_type 1 8 (OTF2_Writer 4 0 (- 1)))
           = Inr (OTF2_WRITER_SUCCESS, w')
       \<and> evt_writer w' =
           [Enter 100 0, MpiCollectiveBegin 100,
            MpiCollectiveEnd 200 OTF2_COLLECTIVE_OP_BCAST 7 0 0 80, Leave 200 0]"
  by (simp add: mpi_bcast_def ENTER_def logger_def table_insert_def count_bytes_def
      register_type_def OTF2_Writer_def get_world_rank_def get_comm_size_def
      COLLECTIVE_WRAPPER_def Let_def)

text \<open>On every input the broadcast reports 0 bytes sent.\<close>

lemma mpi_bcast_sent_zero:
  "\<exists>w' reg b. mpi_bcast start stop count ty root cm w = Inr (OTF2_WRITER_SUCCESS, w')
       \<and> evt_writer w' = evt_writer w @
           [Enter start reg, MpiCollectiveBegin start,
            MpiCollectiveEnd stop OTF2_COLLECTIVE_OP_BCAST cm root 0 b, Leave stop reg]"
  by (simp add: mpi_bcast_def ENTER_def logger_def count_bytes_def
      get_world_rank_def get_comm_size_def
      COLLECTIVE_WRAPPER_def Let_def split: prod.splits option.splits)

text \<open>
  Claim C6. The claim has \<^verbatim>\<open>mpi_comm_group\<close> raise an error when the group differs
  from the one recorded for the communicator. For a communicator recorded with group 1
  and a call with group 2 the function returns \<^verbatim>\<open>OTF2_WRITER_SUCCESS\<close>: the macro
  \<^verbatim>\<open>_LEAVE\<close> returns before the comparison is reached.
\<close>

theorem mpi_comm_group_mismatch_returns_success:
  "local_group_id (comms ((OTF2_Writer 4 0 (- 1))
        \<lparr>comms := (comms (OTF2_Writer 4 0 (- 1)))(5 := OTF2_MPI_Comm 5 0 1 [] False [])\<rparr>) 5) \<noteq> 2
   \<and> (\<exists>w'. mpi_comm_group 100 200 5 2 ((OTF2_Writer 4 0 (- 1))
        \<lparr>comms := (comms (OTF2_Writer 4 0 (- 1)))(5 := OTF2_MPI_Comm 5 0 1 [] False [])\<rparr>)
          = Inr (OTF2_WRITER_SUCCESS, w'))"
  by (simp add: mpi_comm_group_def ENTER_def LEAVE_def logger_def table_insert_def
      OTF2_Writer_def Let_def)

text \<open>On every input the call returns success.\<close>

lemma mpi_comm_group_never_throws:
  "\<exists>w'. mpi_comm_group start stop cm grp w = Inr (OTF2_WRITER_SUCCESS, w')"
  by (simp add: mpi_comm_group_def LEAVE_def split: prod.splits)

text \<open>
  Claim C7. The claim has the exclusion of the indices 1 and 3 from the membership
  0, 1, 2, 3, 4 run without an access out of bounds. At parent index 4 the iterator has
  passed the last excluded index and stands at \<^verbatim>\<open>sortedRanks.end()\<close>, where the loop
  dereferences it.
\<close>

theorem mpi_group_excl_reads_past_the_excluded_ranks:
  "mpi_group_excl_first_pass 0 0 1 [1, 3] 2
     ((OTF2_Writer 5 0 (- 1))
        \<lparr>groups := (groups (OTF2_Writer 5 0 (- 1)))(1 := \<lparr>global_ranks = [0, 1, 2, 3, 4]\<rparr>)\<rparr>)
   = Inl (Out_of_bounds ''*sortedRanks.end()'')"
  by (simp add: mpi_group_excl_first_pass_def excl_loop.simps resize_def OTF2_Writer_def)

text \<open>
  Where the last index of the parent is among the excluded ones the iterator reaches the
  end only as the loop ends, and the group is computed.
\<close>

lemma mpi_group_excl_last_index_excluded:
  "\<exists>w'. mpi_group_excl_first_pass 0 0 1 [1, 4] 2
     ((OTF2_Writer 5 0 (- 1))
        \<lparr>groups := (groups (OTF2_Writer 5 0 (- 1)))(1 := \<lparr>global_ranks = [0, 1, 2, 3, 4]\<rparr>)\<rparr>)
   = Inr (OTF2_WRITER_SUCCESS, w') \<and> global_ranks (groups w' 2) = [0, 2, 3]"
  by (simp add: mpi_group_excl_first_pass_def excl_loop.simps resize_def OTF2_Writer_def)

section \<open>The two passes of the agreement\<close>

lemma traversal_Cons:
  "traversal p k (c # cs) =
     (Suc k # p, c) # traversal (Suc k # p) 0 (sub_comms c) @ traversal p (Suc k) cs"
  by (cases c) simp

lemma agree_along_append:
  "agree_along (xs @ ys) a = agree_along ys (agree_along xs a)"
  by (induction xs a rule: agree_along.induct) simp_all

lemma assign_at_current [simp]:
  "assign_at t (a\<lparr>current := c\<rparr>) = (assign_at t a)\<lparr>current := c\<rparr>"
  by (simp add: assign_at_def)

lemma agree_along_current [simp]:
  "agree_along tcs (a\<lparr>current := c\<rparr>) = (agree_along tcs a)\<lparr>current := c\<rparr>"
  by (induction tcs arbitrary: a) auto

lemma agree_along_Cons_append:
  "agree_along (x # xs @ ys) a = agree_along ys (agree_along (x # xs) a)"
  using agree_along_append [of "x # xs" ys a] by simp

lemma current_assign_at [simp]: "current (assign_at t a) = current a"
  by (simp add: assign_at_def)

lemma current_agree_along [simp]: "current (agree_along tcs a) = current a"
  by (induction tcs arbitrary: a) auto

lemma assign_current_eq: "assign_current a = assign_at (current a) a"
  by (simp add: assign_current_def assign_at_def)

lemma agree_passes:
  "agree_global_ids_comm c a =
     agree_along ((current a, c) # traversal (current a) 0 (sub_comms c)) a"
  "agree_global_ids_subs subs a = agree_along (traversal (current a) 0 subs) a"
  "\<forall>k p. current a = k # p \<longrightarrow>
     agree_loop subs a = (agree_along (traversal p k subs) a)\<lparr>current := (k + length subs) # p\<rparr>"
proof (induction c a and subs a and subs a
    rule: agree_global_ids_comm_agree_global_ids_subs_agree_loop.induct)
  case (1 lid gid lgrp nm root subs assigner)
  then show ?case by (simp add: assign_current_eq Let_def)
next
  case (2 subs assigner)
  then show ?case
    by (simp add: add_level_def remove_level_def tree_add_level_def tree_remove_level_def)
next
  case (3 assigner)
  then show ?case by simp
next
  case (4 sub rest assigner)
  show ?case
  proof (intro allI impI)
    fix k p assume c: "current assigner = k # p"
    let ?a1 = "advance_sub_comm assigner"
    have a1: "?a1 = assigner\<lparr>current := Suc k # p\<rparr>"
      using c by (simp add: advance_sub_comm_def tree_advance_def)
    let ?a2 = "agree_global_ids_comm sub ?a1"
    have a2: "?a2 = (agree_along ((Suc k # p, sub) # traversal (Suc k # p) 0 (sub_comms sub))
                 assigner)\<lparr>current := Suc k # p\<rparr>"
      using "4.IH"(1) a1 by simp
    then have "current ?a2 = Suc k # p" by simp
    with "4.IH"(2) have "agree_loop rest ?a2 =
        (agree_along (traversal p (Suc k) rest) ?a2)\<lparr>current := (Suc k + length rest) # p\<rparr>"
      by blast
    then show "agree_loop (sub # rest) assigner =
        (agree_along (traversal p k (sub # rest)) assigner)
          \<lparr>current := (k + length (sub # rest)) # p\<rparr>"
      using a2 by (simp add: traversal_Cons agree_along_Cons_append del: agree_along.simps)
  qed
qed

lemma assign_passes:
  "assign_global_ids_comm f c t =
     (case c of OTF2_MPI_Comm lid gid lgrp nm root subs \<Rightarrow>
        (OTF2_MPI_Comm lid (f t) lgrp nm root (relabel f t 0 subs), t))"
  "assign_global_ids_subs f subs t = (relabel f t 0 subs, t)"
  "\<forall>k p. t = k # p \<longrightarrow> assign_loop f subs t = (relabel f p k subs, (k + length subs) # p)"
proof (induction f c t and f subs t and f subs t
    rule: assign_global_ids_comm_assign_global_ids_subs_assign_loop.induct)
  case (1 global_ids lid gid lgrp nm root subs local_ids)
  then show ?case by (simp add: Let_def)
next
  case (2 global_ids subs local_ids)
  then show ?case by (simp add: tree_add_level_def tree_remove_level_def)
next
  case (3 global_ids local_ids)
  then show ?case by simp
next
  case (4 global_ids sub rest local_ids)
  show ?case
  proof (intro allI impI)
    fix k p assume c: "local_ids = k # p"
    obtain lid gid lgrp nm root subs where s: "sub = OTF2_MPI_Comm lid gid lgrp nm root subs"
      by (cases sub)
    have adv: "tree_advance local_ids = Suc k # p" using c by (simp add: tree_advance_def)
    have h1: "assign_global_ids_comm global_ids sub (tree_advance local_ids) =
        (OTF2_MPI_Comm lid (global_ids (Suc k # p)) lgrp nm root
           (relabel global_ids (Suc k # p) 0 subs), Suc k # p)"
      using "4.IH"(1) s adv by simp
    from "4.IH"(2) [OF h1 [symmetric]]
    have h2: "assign_loop global_ids rest (Suc k # p) =
        (relabel global_ids p (Suc k) rest, (Suc k + length rest) # p)"
      by simp
    show "assign_loop global_ids (sub # rest) local_ids =
        (relabel global_ids p k (sub # rest), (k + length (sub # rest)) # p)"
      using h1 h2 s by simp
  qed
qed

lemma traversal_coordinates:
  "map fst (traversal p k subs) = coordinates p k (map shape_of subs)"
  by (induction p k subs rule: traversal.induct) simp_all

lemma shape_relabel: "map shape_of (relabel f p k subs) = map shape_of subs"
  by (induction f p k subs rule: relabel.induct) simp_all

lemma relabel_global_id:
  "(t, c) \<in> set (traversal p k (relabel f p k subs)) \<Longrightarrow> global_id c = f t"
  by (induction f p k subs rule: relabel.induct) auto

lemma relabel_keeps:
  "map (\<lambda>(t, c). (t, local_id c, local_group_id c, name c, is_root c))
       (traversal p k (relabel f p k subs)) =
   map (\<lambda>(t, c). (t, local_id c, local_group_id c, name c, is_root c)) (traversal p k subs)"
  by (induction f p k subs rule: relabel.induct) simp_all

lemma assigned_stays:
  "assigned a t = Some i \<Longrightarrow> \<exists>j. assigned (agree_along tcs a) t = Some j"
proof (induction tcs arbitrary: a i)
  case Nil
  then show ?case by simp
next
  case (Cons x tcs)
  obtain u c where x: "x = (u, c)" by (cases x)
  let ?a = "if is_root c then assign_at u a else a"
  have "\<exists>j. assigned ?a t = Some j" using Cons.prems by (simp add: assign_at_def)
  then obtain j where "assigned ?a t = Some j" ..
  from Cons.IH [OF this] x show ?case by simp
qed

lemma root_is_assigned:
  "(t, c) \<in> set tcs \<Longrightarrow> is_root c \<Longrightarrow> \<exists>i. assigned (agree_along tcs a) t = Some i"
proof (induction tcs arbitrary: a)
  case Nil
  then show ?case by simp
next
  case (Cons x tcs)
  obtain u d where x: "x = (u, d)" by (cases x)
  show ?case
  proof (cases "x = (t, c)")
    case True
    with Cons.prems x have "assigned (assign_at u a) t = Some (next_id a)"
      by (simp add: assign_at_def)
    from assigned_stays [OF this, of tcs] True x Cons.prems show ?thesis by simp
  next
    case False
    with Cons.prems have "(t, c) \<in> set tcs" by simp
    from Cons.IH [OF this Cons.prems(2)] x show ?thesis by simp
  qed
qed

lemma sub_comms_assign:
  "sub_comms (assign_global_ids f world) = relabel f [] 0 (sub_comms world)"
  by (cases world)
    (simp add: assign_global_ids_def assign_passes(2) del: assign_global_ids_subs.simps)

text \<open>
  Claim C2. The agree pass and the assign pass walk the forest below WORLD in one and the
  same order, depth first, the children in creation order, a node before its children:
  the agree pass numbers the root nodes along \<open>traversal\<close>, the assign pass writes the
  lookup at each coordinate of \<open>traversal\<close>, and the coordinates are a function of the
  shape of the forest alone. The assign pass changes nothing but the global identifiers.
  Consequently the identifier stored for a communicator is the lookup at its coordinate,
  so the records that two ranks hold at the same coordinate get the same integer, and a
  node numbered by its root rank in the agree pass is found by the lookup.
\<close>

theorem agree_and_assign_follow_one_traversal:
  "agree_global_ids world a = agree_along (traversal (current a) 0 (sub_comms world)) a
   \<and> sub_comms (assign_global_ids f world) = relabel f [] 0 (sub_comms world)
   \<and> map fst (traversal p k subs) = coordinates p k (map shape_of subs)
   \<and> map (\<lambda>(t, c). (t, local_id c, local_group_id c, name c, is_root c))
         (traversal [] 0 (sub_comms (assign_global_ids f world))) =
       map (\<lambda>(t, c). (t, local_id c, local_group_id c, name c, is_root c))
         (traversal [] 0 (sub_comms world))
   \<and> (\<forall>t c. (t, c) \<in> set (traversal [] 0 (sub_comms (assign_global_ids f world))) \<longrightarrow>
         global_id c = f t)
   \<and> (\<forall>t c1 c2.
         (t, c1) \<in> set (traversal [] 0 (sub_comms (assign_global_ids f world1))) \<and>
         (t, c2) \<in> set (traversal [] 0 (sub_comms (assign_global_ids f world2))) \<longrightarrow>
         global_id c1 = global_id c2)
   \<and> (\<forall>t c. (t, c) \<in> set (traversal (current a) 0 (sub_comms world)) \<and> is_root c \<longrightarrow>
         (\<exists>i. assigned (agree_global_ids world a) t = Some i))"
proof (intro conjI allI impI)
  show ag: "agree_global_ids world a = agree_along (traversal (current a) 0 (sub_comms world)) a"
    by (simp add: agree_global_ids_def agree_passes(2) del: agree_global_ids_subs.simps)
  show "sub_comms (assign_global_ids f world) = relabel f [] 0 (sub_comms world)"
    by (rule sub_comms_assign)
  show "map fst (traversal p k subs) = coordinates p k (map shape_of subs)"
    by (rule traversal_coordinates)
  show "map (\<lambda>(t, c). (t, local_id c, local_group_id c, name c, is_root c))
         (traversal [] 0 (sub_comms (assign_global_ids f world))) =
       map (\<lambda>(t, c). (t, local_id c, local_group_id c, name c, is_root c))
         (traversal [] 0 (sub_comms world))"
    by (simp only: sub_comms_assign relabel_keeps)
  show "global_id c = f t"
    if "(t, c) \<in> set (traversal [] 0 (sub_comms (assign_global_ids f world)))" for t c
    using that by (simp only: sub_comms_assign) (rule relabel_global_id)
  show "global_id c1 = global_id c2"
    if "(t, c1) \<in> set (traversal [] 0 (sub_comms (assign_global_ids f world1))) \<and>
        (t, c2) \<in> set (traversal [] 0 (sub_comms (assign_global_ids f world2)))" for t c1 c2
  proof -
    from that have "global_id c1 = f t" "global_id c2 = f t"
      by (simp_all only: sub_comms_assign) (blast dest: relabel_global_id)+
    then show ?thesis by simp
  qed
  show "\<exists>i. assigned (agree_global_ids world a) t = Some i"
    if "(t, c) \<in> set (traversal (current a) 0 (sub_comms world)) \<and> is_root c" for t c
    using that root_is_assigned [of t c "traversal (current a) 0 (sub_comms world)" a]
    by (simp add: ag)
qed

lemma agreed_ids: "get_id (- 1) agreed [Suc 0] = 2" "get_id (- 1) agreed [Suc (Suc 0)] = 3"
  by (simp_all add: agreed_def rank0_world_def rank1_world_def rank2_world_def
      agree_global_ids_def add_level_def remove_level_def advance_sub_comm_def
      assign_current_def tree_add_level_def tree_advance_def tree_remove_level_def
      get_id_def Let_def)

theorem agree_and_assign_follow_one_traversal_witness:
  "([1], OTF2_MPI_Comm 10 2 2 [] True [])
     \<in> set (traversal [] 0 (sub_comms (assign_global_ids (get_id (- 1) agreed) rank0_world)))
   \<and> ([1], OTF2_MPI_Comm 20 2 2 [] False [])
     \<in> set (traversal [] 0 (sub_comms (assign_global_ids (get_id (- 1) agreed) rank1_world)))
   \<and> global_id (OTF2_MPI_Comm 10 2 2 [] True []) = global_id (OTF2_MPI_Comm 20 2 2 [] False [])
   \<and> ([2], OTF2_MPI_Comm 21 3 3 [] True [])
     \<in> set (traversal [] 0 (sub_comms (assign_global_ids (get_id (- 1) agreed) rank1_world)))
   \<and> ([2], OTF2_MPI_Comm 30 3 3 [] False [])
     \<in> set (traversal [] 0 (sub_comms (assign_global_ids (get_id (- 1) agreed) rank2_world)))
   \<and> global_id (OTF2_MPI_Comm 21 3 3 [] True []) = global_id (OTF2_MPI_Comm 30 3 3 [] False [])
   \<and> ([1], OTF2_MPI_Comm 10 (- 1) 2 [] True []) \<in> set (traversal [] 0 (sub_comms rank0_world))
   \<and> is_root (OTF2_MPI_Comm 10 (- 1) 2 [] True [])
   \<and> assigned (agree_global_ids rank0_world \<lparr>current = [], next_id = 2, assigned = Map.empty\<rparr>) [1]
       = Some 2"
proof -
  let ?f = "get_id (- 1) agreed"
  have m0: "([1], OTF2_MPI_Comm 10 2 2 [] True [])
     \<in> set (traversal [] 0 (sub_comms (assign_global_ids ?f rank0_world)))"
    by (simp add: assign_global_ids_def rank0_world_def tree_add_level_def tree_advance_def
        tree_remove_level_def agreed_ids Let_def numeral_2_eq_2)
  have m1: "([1], OTF2_MPI_Comm 20 2 2 [] False [])
     \<in> set (traversal [] 0 (sub_comms (assign_global_ids ?f rank1_world)))"
    "([2], OTF2_MPI_Comm 21 3 3 [] True [])
     \<in> set (traversal [] 0 (sub_comms (assign_global_ids ?f rank1_world)))"
    by (simp_all add: assign_global_ids_def rank1_world_def tree_add_level_def tree_advance_def
        tree_remove_level_def agreed_ids Let_def numeral_2_eq_2)
  have m2: "([2], OTF2_MPI_Comm 30 3 3 [] False [])
     \<in> set (traversal [] 0 (sub_comms (assign_global_ids ?f rank2_world)))"
    by (simp add: assign_global_ids_def rank2_world_def tree_add_level_def tree_advance_def
        tree_remove_level_def agreed_ids Let_def numeral_2_eq_2)
  have r: "([1], OTF2_MPI_Comm 10 (- 1) 2 [] True []) \<in> set (traversal [] 0 (sub_comms rank0_world))"
    by (simp add: rank0_world_def)
  have e: "assigned (agree_global_ids rank0_world \<lparr>current = [], next_id = 2, assigned = Map.empty\<rparr>) [1]
       = Some 2"
    by (simp add: rank0_world_def agree_global_ids_def add_level_def remove_level_def
        advance_sub_comm_def assign_current_def tree_add_level_def tree_advance_def
        tree_remove_level_def Let_def)
  note T = agree_and_assign_follow_one_traversal
  from T [of rank0_world _ ?f _ _ _ rank0_world rank1_world] m0 m1(1)
  have g1: "global_id (OTF2_MPI_Comm 10 2 2 [] True []) = global_id (OTF2_MPI_Comm 20 2 2 [] False [])"
    by blast
  from T [of rank0_world _ ?f _ _ _ rank1_world rank2_world] m1(2) m2
  have g2: "global_id (OTF2_MPI_Comm 21 3 3 [] True []) = global_id (OTF2_MPI_Comm 30 3 3 [] False [])"
    by blast
  from m0 m1 m2 r e g1 g2 show ?thesis by simp
qed

end
